theory Spec2Isabelle
  imports Complex_Main "HOL-Library.Multiset"
begin

section \<open>The auto-scheduler of flowmotion\<close>

text \<open>
  A shallow embedding of the class \<^verbatim>\<open>AutoScheduler\<close> (the module that
  \<^verbatim>\<open>CalendarView.tsx\<close> imports as \<^verbatim>\<open>./scheduling\<close>; its text is in
  \<^verbatim>\<open>src/hooks/useSpeech.ts\<close>, lines 571 to 986) and of the types it reads
  (\<^verbatim>\<open>Task\<close> of \<^verbatim>\<open>TaskTypes.ts\<close>, and \<^verbatim>\<open>CalendarEvent\<close>, \<^verbatim>\<open>TimeSlot\<close>,
  \<^verbatim>\<open>WorkingHours\<close>, \<^verbatim>\<open>CalendarSettings\<close>, \<^verbatim>\<open>SchedulingResult\<close> of the calendar
  types, lines 404 to 512 of the same file).

  Conventions of the embedding.
  \<^item> A JavaScript \<^verbatim>\<open>Date\<close> is its time value: an \<open>int\<close> of milliseconds since the
    epoch. Invalid dates occur only where the source can build one from the
    working-hour strings (\<open>setHours\<close> below); the bound of 8.64e15 ms is not modelled.
  \<^item> Local time is UTC: \<^verbatim>\<open>getHours\<close>, \<^verbatim>\<open>getDay\<close>, \<^verbatim>\<open>setHours\<close>, \<^verbatim>\<open>setDate\<close>,
    \<^verbatim>\<open>endOfDay\<close> and \<^verbatim>\<open>addDays\<close> are the calendar arithmetic of a zone with offset
    zero and no daylight saving.
  \<^item> \<^verbatim>\<open>new Date()\<close> reads a clock. The clock is a function from the number of
    readings taken so far to the instant returned, and every function that reads it
    takes the reading counter and returns it advanced.
  \<^item> Slot scores and confidences are JavaScript numbers; they are taken here in exact
    rational arithmetic.
  \<^item> Record fields keep the source's names, prefixed where two interfaces share a
    name (\<open>id\<close>, \<open>title\<close>, \<open>start\<close>, \<open>end\<close>, \<open>isFlexible\<close>, \<open>taskId\<close>). Fields the
    scheduler never reads are left out.
\<close>

subsection \<open>Data\<close>

type_synonym date = int

datatype priority = Low | Medium | High

record task =
  task_id :: string
  task_title :: string
  priority :: priority
  estimatedDuration :: int
  deadline :: "date option"
  createdAt :: date
  dependencies :: "string list"
  isFlexible :: bool

datatype eventType = TaskEvent | Meeting | Block | Break

record calendarEvent =
  event_id :: string
  event_title :: string
  event_start :: date
  event_end :: date
  event_type :: eventType
  taskId :: "string option"
  event_isFlexible :: bool

record workingHours =
  wh_start :: string
  wh_end :: string
  daysOfWeek :: "int list"

record calendarSettings =
  workingHours :: workingHours
  bufferTime :: int

record timeSlot =
  slot_start :: date
  slot_end :: date
  duration :: int
  isAvailable :: bool

record placement =
  placed_taskId :: string
  placed_start :: date
  placed_end :: date
  confidence :: rat

record conflict =
  conflict_taskId :: string
  reason :: string
  suggestedTime :: "date option"

datatype actionType = Extend_hours | Reduce_tasks | Adjust_deadlines

record suggestion =
  message :: string
  actionType :: actionType
  data :: "string \<times> nat"

record schedulingResult =
  success :: bool
  scheduledTasks :: "placement list"
  unscheduledTasks :: "string list"
  conflicts :: "conflict list"
  suggestions :: "suggestion list"

text \<open>
  What \<^verbatim>\<open>scheduleTask\<close> returns: an object whose \<^verbatim>\<open>success\<close> flag tells which of
  the two shapes it has.
\<close>

datatype attempt =
  Scheduled date date rat
| NotScheduled "string option" "date option"

type_synonym clock = "nat \<Rightarrow> date"

subsection \<open>Dates (ECMAScript \<^verbatim>\<open>Date\<close> and date-fns, in a zone with offset zero)\<close>

definition msPerMinute :: int where "msPerMinute = 60 * 1000"
definition msPerHour :: int where "msPerHour = 1000 * 60 * 60"
definition msPerDay :: int where "msPerDay = 86400000"

definition startOfDay :: "date \<Rightarrow> date" where
  "startOfDay d = (d div msPerDay) * msPerDay"

definition endOfDay :: "date \<Rightarrow> date" where
  "endOfDay d = startOfDay d + msPerDay - 1"

definition getHours :: "date \<Rightarrow> int" where
  "getHours d = (d mod msPerDay) div msPerHour"

definition getDay :: "date \<Rightarrow> int" where
  "getDay d = (d div msPerDay + 4) mod 7"

definition addMinutes :: "date \<Rightarrow> int \<Rightarrow> date" where
  "addMinutes d amount = d + amount * msPerMinute"

definition addDays :: "date \<Rightarrow> int \<Rightarrow> date" where
  "addDays d amount = d + amount * msPerDay"

text \<open>
  \<^verbatim>\<open>d.setHours(h, m, 0, 0)\<close>: the day of \<open>d\<close> at \<open>h:m:00.000\<close>, by plain
  arithmetic when \<open>h\<close> or \<open>m\<close> is out of range, and an invalid date (\<open>None\<close>) when
  one of them is \<^verbatim>\<open>NaN\<close>.
\<close>

definition setHours :: "date \<Rightarrow> int option \<Rightarrow> int option \<Rightarrow> date option" where
  "setHours d h m =
     (case h of None \<Rightarrow> None
      | Some hv \<Rightarrow> (case m of None \<Rightarrow> None
          | Some mv \<Rightarrow> Some (startOfDay d + hv * msPerHour + mv * msPerMinute)))"

text \<open>
  \<^verbatim>\<open>isWithinInterval(date, {start, end})\<close> of the library date-fns: the test is
  inclusive at both ends. For an interval whose end is before its start, version 3
  and later put the two ends in order, as here; earlier versions throw a
  \<^verbatim>\<open>RangeError\<close>. The two agree wherever the ends are in order.
\<close>

definition isWithinInterval :: "date \<Rightarrow> date \<Rightarrow> date \<Rightarrow> bool" where
  "isWithinInterval d intervalStart intervalEnd =
     (let startTime = min intervalStart intervalEnd;
          endTime = max intervalStart intervalEnd
      in d \<ge> startTime \<and> d \<le> endTime)"

subsection \<open>Strings (\<^verbatim>\<open>split\<close>, \<^verbatim>\<open>parseInt\<close>, \<^verbatim>\<open>join\<close>, number to string)\<close>

fun split :: "char \<Rightarrow> string \<Rightarrow> string list" where
  "split sep [] = [[]]"
| "split sep (c # cs) =
     (if c = sep then [] # split sep cs
      else (case split sep cs of
              [] \<Rightarrow> [[c]]
            | piece # pieces \<Rightarrow> (c # piece) # pieces))"

definition at_index :: "'a list \<Rightarrow> nat \<Rightarrow> 'a option" where
  "at_index xs i = (case drop i xs of [] \<Rightarrow> None | x # _ \<Rightarrow> Some x)"

definition isWhiteSpace :: "char \<Rightarrow> bool" where
  "isWhiteSpace c = (of_char c \<in> {9, 10, 11, 12, 13, 32 :: nat})"

definition digitValue :: "char \<Rightarrow> nat option" where
  "digitValue c =
     (let k = (of_char c :: nat) in
      if 48 \<le> k \<and> k \<le> 57 then Some (k - 48)
      else if 97 \<le> k \<and> k \<le> 122 then Some (k - 87)
      else if 65 \<le> k \<and> k \<le> 90 then Some (k - 55)
      else None)"

fun leadingDigits :: "nat \<Rightarrow> string \<Rightarrow> nat list" where
  "leadingDigits radix [] = []"
| "leadingDigits radix (c # cs) =
     (case digitValue c of
        None \<Rightarrow> []
      | Some v \<Rightarrow> if v < radix then v # leadingDigits radix cs else [])"

text \<open>
  \<^verbatim>\<open>parseInt(s)\<close> with no radix; \<open>None\<close> is \<^verbatim>\<open>NaN\<close>. The argument is \<open>None\<close> when the
  source passes \<^verbatim>\<open>undefined\<close> (a missing piece of the split), which parses to \<^verbatim>\<open>NaN\<close>.
\<close>

definition parseInt :: "string option \<Rightarrow> int option" where
  "parseInt arg =
     (case arg of
        None \<Rightarrow> None
      | Some s \<Rightarrow>
          (let trimmed = dropWhile isWhiteSpace s;
               negative = (case trimmed of c # _ \<Rightarrow> c = CHR ''-'' | [] \<Rightarrow> False);
               unsigned = (case trimmed of
                             c # cs \<Rightarrow> if c = CHR ''-'' \<or> c = CHR ''+'' then cs else trimmed
                           | [] \<Rightarrow> []);
               hex = (take 2 unsigned = ''0x'' \<or> take 2 unsigned = ''0X'');
               radix = (if hex then 16 else 10);
               ds = leadingDigits radix (if hex then drop 2 unsigned else unsigned)
           in if ds = [] then None
              else (let v = int (foldl (\<lambda>acc dgt. acc * radix + dgt) 0 ds)
                    in Some (if negative then - v else v))))"

fun join :: "string \<Rightarrow> string list \<Rightarrow> string" where
  "join sep [] = []"
| "join sep [s] = s"
| "join sep (s # t # rest) = s @ sep @ join sep (t # rest)"

function numberToString :: "nat \<Rightarrow> string" where
  "numberToString n =
     (if n < 10 then [char_of (48 + n)]
      else numberToString (n div 10) @ [char_of (48 + n mod 10)])"
  by pat_completeness auto
termination
  by (relation "measure (\<lambda>n. n)") auto

declare numberToString.simps [simp del]

subsection \<open>Helper functions of the class\<close>

definition getPriorityWeight :: "priority \<Rightarrow> int" where
  "getPriorityWeight p = (if p = High then 3 else if p = Medium then 2 else 1)"

definition getUrgencyScore :: "clock \<Rightarrow> nat \<Rightarrow> task \<Rightarrow> int \<times> nat" where
  "getUrgencyScore clk n t =
     (case deadline t of
        None \<Rightarrow> (0, n)
      | Some dl \<Rightarrow>
          (let now = clk n;
               hoursToDeadline = (of_int (dl - now) :: rat) / (1000 * 60 * 60)
           in (if hoursToDeadline < 0 then 10
               else if hoursToDeadline < 24 then 8
               else if hoursToDeadline < 48 then 6
               else if hoursToDeadline < 168 then 4
               else 2, Suc n)))"

definition getDependencyLevel :: "task \<Rightarrow> task list \<Rightarrow> int" where
  "getDependencyLevel t allTasks =
     int (length (filter (\<lambda>u. task_id t \<in> set (dependencies u)) allTasks))"

definition getBufferAfter :: "calendarEvent list \<Rightarrow> timeSlot \<Rightarrow> rat" where
  "getBufferAfter existingEvents slot =
     (case find (\<lambda>e. event_start e \<ge> slot_end slot) existingEvents of
        None \<Rightarrow> 60
      | Some nextEvent \<Rightarrow> of_int (event_start nextEvent - slot_end slot) / (1000 * 60))"

definition getWorkingHoursForDate :: "calendarSettings \<Rightarrow> date \<Rightarrow> workingHours option" where
  "getWorkingHoursForDate settings d =
     (let dayOfWeek = getDay d in
      if dayOfWeek \<in> set (daysOfWeek (workingHours settings))
      then Some (workingHours settings) else None)"

definition suggestAlternativeTime :: "clock \<Rightarrow> nat \<Rightarrow> date \<times> nat" where
  "suggestAlternativeTime clk n =
     (let now = clk n;
          tomorrow = addDays now 1
      in (startOfDay tomorrow + 9 * msPerHour, Suc n))"

subsection \<open>Conflicts and slots\<close>

definition findConflicts :: "calendarEvent list \<Rightarrow> date \<Rightarrow> date \<Rightarrow> calendarEvent list" where
  "findConflicts existingEvents start end' =
     filter (\<lambda>event.
        isWithinInterval start (event_start event) (event_end event) \<or>
        isWithinInterval end' (event_start event) (event_end event) \<or>
        isWithinInterval (event_start event) start end' \<or>
        isWithinInterval (event_end event) start end') existingEvents"

text \<open>
  The loop of \<^verbatim>\<open>findSlotsInRange\<close>, with the loop variable \<open>current\<close> as argument;
  the slots are returned in the order the source pushes them.
\<close>

function findSlotsFrom ::
  "calendarSettings \<Rightarrow> calendarEvent list \<Rightarrow> date \<Rightarrow> date \<Rightarrow> int \<Rightarrow> timeSlot list" where
  "findSlotsFrom settings existingEvents current end' durationMinutes =
     (if current \<le> end' then
        (let slotDuration = durationMinutes + bufferTime settings;
             slotEnd = addMinutes current slotDuration
         in if slotEnd > end' then []
            else (if findConflicts existingEvents current slotEnd = []
                  then [\<lparr>slot_start = current,
                         slot_end = addMinutes current durationMinutes,
                         duration = durationMinutes,
                         isAvailable = True\<rparr>]
                  else [])
                 @ findSlotsFrom settings existingEvents (current + 15 * 60 * 1000) end'
                     durationMinutes)
      else [])"
  by pat_completeness auto
termination
  by (relation "measure (\<lambda>(settings, existingEvents, current, end', durationMinutes).
        nat (end' - current + 1))") auto

declare findSlotsFrom.simps [simp del]

definition findSlotsInRange ::
  "calendarSettings \<Rightarrow> calendarEvent list \<Rightarrow> date \<Rightarrow> date \<Rightarrow> int \<Rightarrow> timeSlot list" where
  "findSlotsInRange settings existingEvents start end' durationMinutes =
     findSlotsFrom settings existingEvents start end' durationMinutes"

text \<open>
  One day of \<^verbatim>\<open>findAvailableSlots\<close>: the slots found for the day of \<open>current\<close>.
  A comparison with an invalid date is false, so an unparsable working-hour string
  leaves the bound it would have moved where it was.
\<close>

definition daySlots ::
  "calendarSettings \<Rightarrow> calendarEvent list \<Rightarrow> date \<Rightarrow> date \<Rightarrow> int \<Rightarrow> timeSlot list" where
  "daySlots settings existingEvents current end' durationMinutes =
     (let dayEnd = endOfDay current;
          searchEnd = (if dayEnd < end' then dayEnd else end')
      in case getWorkingHoursForDate settings current of
           None \<Rightarrow> []
         | Some wh \<Rightarrow>
             (let workStart = setHours current
                    (parseInt (at_index (split CHR '':'' (wh_start wh)) 0))
                    (parseInt (at_index (split CHR '':'' (wh_start wh)) 1));
                  workEnd = setHours current
                    (parseInt (at_index (split CHR '':'' (wh_end wh)) 0))
                    (parseInt (at_index (split CHR '':'' (wh_end wh)) 1))
              in findSlotsInRange settings existingEvents
                   (case workStart of
                      Some ws \<Rightarrow> if ws > current then ws else current
                    | None \<Rightarrow> current)
                   (case workEnd of
                      Some we \<Rightarrow> if we < searchEnd then we else searchEnd
                    | None \<Rightarrow> searchEnd)
                   durationMinutes))"

function findAvailableFrom ::
  "calendarSettings \<Rightarrow> calendarEvent list \<Rightarrow> date \<Rightarrow> date \<Rightarrow> int \<Rightarrow> timeSlot list" where
  "findAvailableFrom settings existingEvents current end' durationMinutes =
     (if current < end' then
        daySlots settings existingEvents current end' durationMinutes
        @ findAvailableFrom settings existingEvents (startOfDay current + msPerDay) end'
            durationMinutes
      else [])"
  by pat_completeness auto
termination
proof (relation "measure (\<lambda>(settings, existingEvents, current, end', durationMinutes).
        nat (end' - current))")
  show "wf (measure (\<lambda>(settings, existingEvents, current, end', durationMinutes).
        nat (end' - current)))" by simp
next
  fix settings :: calendarSettings and existingEvents :: "calendarEvent list"
    and current end' durationMinutes :: int
  assume "current < end'"
  moreover have "current < startOfDay current + msPerDay"
  proof -
    have "current mod msPerDay < msPerDay" by (simp add: msPerDay_def)
    moreover have "current = startOfDay current + current mod msPerDay"
      by (simp add: startOfDay_def)
    ultimately show ?thesis by linarith
  qed
  ultimately show "((settings, existingEvents, startOfDay current + msPerDay, end',
      durationMinutes), settings, existingEvents, current, end', durationMinutes)
    \<in> measure (\<lambda>(settings, existingEvents, current, end', durationMinutes).
        nat (end' - current))"
    by simp
qed

declare findAvailableFrom.simps [simp del]

definition findAvailableSlots ::
  "calendarSettings \<Rightarrow> calendarEvent list \<Rightarrow> date \<Rightarrow> date \<Rightarrow> int \<Rightarrow> timeSlot list" where
  "findAvailableSlots settings existingEvents start end' durationMinutes =
     findAvailableFrom settings existingEvents start end' durationMinutes"

subsection \<open>Scoring, selection, confidence\<close>

definition priorityPoints :: "timeSlot \<Rightarrow> task \<Rightarrow> rat" where
  "priorityPoints slot t =
     (if priority t = High then
        (let hour = getHours (slot_start slot)
         in if hour < 12 then 10 else if hour < 15 then 5 else 0)
      else 0)"

definition deadlinePoints :: "timeSlot \<Rightarrow> task \<Rightarrow> rat" where
  "deadlinePoints slot t =
     (case deadline t of
        None \<Rightarrow> 0
      | Some dl \<Rightarrow>
          (let hoursToDeadline = (of_int (dl - slot_start slot) :: rat) / (1000 * 60 * 60)
           in if hoursToDeadline > 0 then min (hoursToDeadline / 24) 10 else 0))"

definition bufferPoints :: "calendarEvent list \<Rightarrow> timeSlot \<Rightarrow> rat" where
  "bufferPoints existingEvents slot =
     (let bufferAfter = getBufferAfter existingEvents slot
      in min (bufferAfter / 30) 5)"

definition scoreTimeSlot :: "calendarEvent list \<Rightarrow> timeSlot \<Rightarrow> task \<Rightarrow> rat" where
  "scoreTimeSlot existingEvents slot t =
     0 + priorityPoints slot t + deadlinePoints slot t + bufferPoints existingEvents slot"

text \<open>
  \<^verbatim>\<open>slots.reduce(...)\<close> with no initial value starts from the first slot;
  \<^verbatim>\<open>scheduleTask\<close> calls it on a non-empty array only, given here as head and rest.
\<close>

definition selectBestTimeSlot ::
  "calendarEvent list \<Rightarrow> timeSlot \<Rightarrow> timeSlot list \<Rightarrow> task \<Rightarrow> timeSlot" where
  "selectBestTimeSlot existingEvents first rest t =
     foldl (\<lambda>best current.
        (let currentScore = scoreTimeSlot existingEvents current t;
             bestScore = scoreTimeSlot existingEvents best t
         in if currentScore > bestScore then current else best)) first rest"

definition calculateSchedulingConfidence :: "timeSlot \<Rightarrow> task \<Rightarrow> rat" where
  "calculateSchedulingConfidence slot t =
     (let c0 = 7 / 10;
          c1 = (if priority t = High \<and> getHours (slot_start slot) < 12
                then c0 + 2 / 10 else c0);
          c2 = (case deadline t of
                  None \<Rightarrow> c1
                | Some dl \<Rightarrow>
                    (let hoursToDeadline =
                           (of_int (dl - slot_start slot) :: rat) / (1000 * 60 * 60)
                     in if hoursToDeadline > 48 then c1 + 1 / 10 else c1));
          hour = getHours (slot_start slot);
          c3 = (if hour < 8 \<or> hour > 18 then c2 - 1 / 10 else c2)
      in max 0 (min 1 c3))"

subsection \<open>Dependencies and the scheduling window\<close>

definition checkDependencies :: "calendarEvent list \<Rightarrow> task \<Rightarrow> bool \<times> string list" where
  "checkDependencies existingEvents t =
     (if dependencies t = [] then (True, [])
      else (let missing = filter (\<lambda>depId.
                    find (\<lambda>e. taskId e = Some depId) existingEvents = None)
                  (dependencies t)
            in (missing = [], missing)))"

definition calculateSchedulingWindow :: "clock \<Rightarrow> nat \<Rightarrow> task \<Rightarrow> (date \<times> date) \<times> nat" where
  "calculateSchedulingWindow clk n t =
     (let now = clk n;
          start = (if now > createdAt t then now else createdAt t);
          end' = (case deadline t of Some dl \<Rightarrow> dl | None \<Rightarrow> addDays start 14)
      in ((start, end'), Suc n))"

subsection \<open>Scheduling one task\<close>

definition scheduleTask ::
  "clock \<Rightarrow> nat \<Rightarrow> calendarSettings \<Rightarrow> calendarEvent list \<Rightarrow> task \<Rightarrow> attempt \<times> nat" where
  "scheduleTask clk n settings existingEvents t =
     (let dependencyCheck = checkDependencies existingEvents t
      in if \<not> fst dependencyCheck then
           (NotScheduled
              (Some (''Dependencies not satisfied: '' @ join '', '' (snd dependencyCheck)))
              None, n)
         else
           (let (schedulingWindow, n1) = calculateSchedulingWindow clk n t;
                availableSlots = findAvailableSlots settings existingEvents
                  (fst schedulingWindow) (snd schedulingWindow) (estimatedDuration t)
            in case availableSlots of
                 [] \<Rightarrow>
                   (let (alternative, n2) = suggestAlternativeTime clk n1
                    in (NotScheduled (Some ''No available time slots found'')
                          (Some alternative), n2))
               | first # rest \<Rightarrow>
                   (let bestSlot = selectBestTimeSlot existingEvents first rest t
                    in (Scheduled (slot_start bestSlot) (slot_end bestSlot)
                          (calculateSchedulingConfidence bestSlot t), n1))))"

subsection \<open>Ranking\<close>

text \<open>
  The comparator of \<^verbatim>\<open>prioritizeTasks\<close>. It reads the clock once for each of its two
  arguments that has a deadline.
\<close>

definition compareTasks :: "clock \<Rightarrow> nat \<Rightarrow> task list \<Rightarrow> task \<Rightarrow> task \<Rightarrow> int \<times> nat" where
  "compareTasks clk n tasks a b =
     (let priorityWeightA = getPriorityWeight (priority a);
          priorityWeightB = getPriorityWeight (priority b);
          (urgencyA, n1) = getUrgencyScore clk n a;
          (urgencyB, n2) = getUrgencyScore clk n1 b;
          dependencyLevelA = getDependencyLevel a tasks;
          dependencyLevelB = getDependencyLevel b tasks;
          scoreA = priorityWeightA * 10 + urgencyA * 5 + dependencyLevelA * 3;
          scoreB = priorityWeightB * 10 + urgencyB * 5 + dependencyLevelB * 3
      in (scoreB - scoreA, n2))"

text \<open>
  \<^verbatim>\<open>Array.prototype.sort\<close> is stable; which pairs it compares, and in which order,
  is left to the engine. The model is a stable insertion sort: each element, from the
  last to the first, is inserted into the sorted rest, in front of the first element
  it does not have to follow. The comparator sees the array in its original order
  (the engine writes the sorted elements back when the sort is done).

  The comparisons an engine makes on three or more tasks need not be these, and
  neither need the number of clock readings nor the instant each reading returns. The
  properties below therefore use the ranking in two situations only, in which every
  stable sort gives the result of this one: the clock stands still while the tasks
  are ranked (the comparator is then the comparison of fixed scores, and a stable
  sort by it has one result, \<^verbatim>\<open>sortTasks_frozen\<close>), or two tasks are ranked whose
  urgency is the same at every instant read (one comparison, two readings, whichever
  task is read first).
\<close>

fun insertTask :: "clock \<Rightarrow> nat \<Rightarrow> task list \<Rightarrow> task \<Rightarrow> task list \<Rightarrow> task list \<times> nat" where
  "insertTask clk n tasks x [] = ([x], n)"
| "insertTask clk n tasks x (y # ys) =
     (let (c, n1) = compareTasks clk n tasks x y
      in if c \<le> 0 then (x # y # ys, n1)
         else (let (rest, n2) = insertTask clk n1 tasks x ys in (y # rest, n2)))"

fun sortTasks :: "clock \<Rightarrow> nat \<Rightarrow> task list \<Rightarrow> task list \<Rightarrow> task list \<times> nat" where
  "sortTasks clk n tasks [] = ([], n)"
| "sortTasks clk n tasks (x # xs) =
     (let (sorted, n1) = sortTasks clk n tasks xs
      in insertTask clk n1 tasks x sorted)"

definition prioritizeTasks :: "clock \<Rightarrow> nat \<Rightarrow> task list \<Rightarrow> task list \<times> nat" where
  "prioritizeTasks clk n tasks = sortTasks clk n tasks tasks"

subsection \<open>Suggestions\<close>

text \<open>
  \<^verbatim>\<open>tasks.filter(t => t.deadline && t.deadline < new Date())\<close>: the clock is read for
  each task that has a deadline.
\<close>

fun overdueTasks :: "clock \<Rightarrow> nat \<Rightarrow> task list \<Rightarrow> task list \<times> nat" where
  "overdueTasks clk n [] = ([], n)"
| "overdueTasks clk n (t # ts) =
     (case deadline t of
        None \<Rightarrow> overdueTasks clk n ts
      | Some dl \<Rightarrow>
          (let now = clk n;
               (rest, n1) = overdueTasks clk (Suc n) ts
           in (if dl < now then t # rest else rest, n1)))"

definition generateSuggestions ::
  "clock \<Rightarrow> nat \<Rightarrow> schedulingResult \<Rightarrow> task list \<Rightarrow> suggestion list \<times> nat" where
  "generateSuggestions clk n result tasks =
     (let unscheduledCount = length (unscheduledTasks result);
          first = (if unscheduledCount > 0 then
                     [\<lparr>message = numberToString unscheduledCount @
                         '' tasks couldn't be scheduled. Consider extending working hours or reducing task load.'',
                       actionType = Extend_hours,
                       data = (''unscheduledCount'', unscheduledCount)\<rparr>]
                   else []);
          (overdue, n1) = overdueTasks clk n tasks;
          second = (if length overdue > 0 then
                      [\<lparr>message = numberToString (length overdue) @
                          '' tasks are overdue. Consider adjusting deadlines or priorities.'',
                        actionType = Adjust_deadlines,
                        data = (''overdueCount'', length overdue)\<rparr>]
                    else [])
      in (first @ second, n1))"

subsection \<open>The scheduling pass\<close>

text \<open>
  The state of the loop of \<^verbatim>\<open>scheduleAllTasks\<close>: the array \<^verbatim>\<open>this.existingEvents\<close>,
  the number of clock readings taken, and the result under construction.
\<close>

type_synonym passState = "calendarEvent list \<times> nat \<times> schedulingResult"

definition commitStep ::
  "clock \<Rightarrow> calendarSettings \<Rightarrow> passState \<Rightarrow> task \<Rightarrow> passState" where
  "commitStep clk settings state t =
     (case state of (existingEvents, n, result) \<Rightarrow>
        (let (schedulingAttempt, n1) = scheduleTask clk n settings existingEvents t
         in case schedulingAttempt of
              Scheduled start end' conf \<Rightarrow>
                (existingEvents @
                   [\<lparr>event_id = ''task-'' @ task_id t,
                     event_title = task_title t,
                     event_start = start,
                     event_end = end',
                     event_type = TaskEvent,
                     taskId = Some (task_id t),
                     event_isFlexible = True\<rparr>],
                 n1,
                 result\<lparr>scheduledTasks := scheduledTasks result @
                   [\<lparr>placed_taskId = task_id t, placed_start = start,
                     placed_end = end', confidence = conf\<rparr>]\<rparr>)
            | NotScheduled why suggested \<Rightarrow>
                (existingEvents,
                 n1,
                 result\<lparr>unscheduledTasks := unscheduledTasks result @ [task_id t],
                        conflicts := conflicts result @
                   [\<lparr>conflict_taskId = task_id t,
                     reason = (case why of
                                 None \<Rightarrow> ''Could not find suitable time slot''
                               | Some r \<Rightarrow> if r = [] then ''Could not find suitable time slot''
                                           else r),
                     suggestedTime = suggested\<rparr>]\<rparr>)))"

definition emptyResult :: schedulingResult where
  "emptyResult = \<lparr>success = True, scheduledTasks = [], unscheduledTasks = [],
                  conflicts = [], suggestions = []\<rparr>"

definition flexibleTasks :: "task list \<Rightarrow> task list" where
  "flexibleTasks sortedTasks = filter isFlexible sortedTasks"

text \<open>
  \<^verbatim>\<open>scheduleAllTasks\<close>. Both arrays it works on are the caller's: the constructor keeps
  the reference to the events array it is given, and \<^verbatim>\<open>tasks.sort\<close> sorts in place.
  The function returns the result together with the final contents of
  \<^verbatim>\<open>this.existingEvents\<close> and of \<^verbatim>\<open>tasks\<close>. The clock readings of one call are
  \<open>clk 0\<close>, \<open>clk 1\<close>, ...
\<close>

definition scheduleAllTasks ::
  "clock \<Rightarrow> calendarSettings \<Rightarrow> calendarEvent list \<Rightarrow> task list \<Rightarrow>
     schedulingResult \<times> calendarEvent list \<times> task list" where
  "scheduleAllTasks clk settings existingEvents tasks =
     (let (sortedTasks, n0) = prioritizeTasks clk 0 tasks;
          (events', n1, result) =
             foldl (commitStep clk settings) (existingEvents, n0, emptyResult)
               (flexibleTasks sortedTasks);
          (suggested, n2) = generateSuggestions clk n1 result sortedTasks;
          result' = result\<lparr>suggestions := suggested\<rparr>;
          result'' = result'\<lparr>success := (length (unscheduledTasks result') = 0)\<rparr>
      in (result'', events', sortedTasks))"

text \<open>
  The caller's view: arrays live in a store and are passed by reference. A scheduler
  object holds its settings and the reference it was constructed with.
\<close>

record store =
  eventArrays :: "nat \<Rightarrow> calendarEvent list"
  taskArrays :: "nat \<Rightarrow> task list"

record autoScheduler =
  settings :: calendarSettings
  existingEvents :: nat

definition newAutoScheduler :: "calendarSettings \<Rightarrow> nat \<Rightarrow> autoScheduler" where
  "newAutoScheduler st eventsRef = \<lparr>settings = st, existingEvents = eventsRef\<rparr>"

definition callScheduleAllTasks ::
  "clock \<Rightarrow> autoScheduler \<Rightarrow> nat \<Rightarrow> store \<Rightarrow> schedulingResult \<times> store" where
  "callScheduleAllTasks clk this tasksRef s =
     (let (result, events', tasks') =
            scheduleAllTasks clk (settings this) (eventArrays s (existingEvents this))
              (taskArrays s tasksRef)
      in (result,
          s\<lparr>eventArrays := (eventArrays s)(existingEvents this := events'),
            taskArrays := (taskArrays s)(tasksRef := tasks')\<rparr>))"

section \<open>Notions the properties are stated with\<close>

text \<open>
  Half-open intervals \<open>[s1, e1)\<close> and \<open>[s2, e2)\<close> overlap when each starts before the
  other ends.
\<close>

definition overlaps :: "date \<Rightarrow> date \<Rightarrow> date \<Rightarrow> date \<Rightarrow> bool" where
  "overlaps s1 e1 s2 e2 = (s1 < e2 \<and> s2 < e1)"

text \<open>
  The range \<^verbatim>\<open>findAvailableSlots\<close> hands to \<^verbatim>\<open>findSlotsInRange\<close> for the day of
  \<open>current\<close>: the two arguments of the call, as functions of the day.
\<close>

definition rangeStart :: "calendarSettings \<Rightarrow> date \<Rightarrow> date" where
  "rangeStart st current =
     (case setHours current
             (parseInt (at_index (split CHR '':'' (wh_start (workingHours st))) 0))
             (parseInt (at_index (split CHR '':'' (wh_start (workingHours st))) 1)) of
        Some ws \<Rightarrow> if ws > current then ws else current
      | None \<Rightarrow> current)"

definition rangeEnd :: "calendarSettings \<Rightarrow> date \<Rightarrow> date \<Rightarrow> date" where
  "rangeEnd st current en =
     (let searchEnd = (if endOfDay current < en then endOfDay current else en)
      in case setHours current
             (parseInt (at_index (split CHR '':'' (wh_end (workingHours st))) 0))
             (parseInt (at_index (split CHR '':'' (wh_end (workingHours st))) 1)) of
        Some we \<Rightarrow> if we < searchEnd then we else searchEnd
      | None \<Rightarrow> searchEnd)"

text \<open>
  The event \<^verbatim>\<open>scheduleAllTasks\<close> appends for a placed task, the reason it records
  for a failed one, and the dependencies \<^verbatim>\<open>checkDependencies\<close> reports missing.
\<close>

definition taskEvent :: "task \<Rightarrow> date \<Rightarrow> date \<Rightarrow> calendarEvent" where
  "taskEvent t s e = \<lparr>event_id = ''task-'' @ task_id t, event_title = task_title t,
     event_start = s, event_end = e, event_type = TaskEvent, taskId = Some (task_id t),
     event_isFlexible = True\<rparr>"

definition failureReason :: "string option \<Rightarrow> string" where
  "failureReason why = (case why of None \<Rightarrow> ''Could not find suitable time slot''
     | Some r \<Rightarrow> if r = [] then ''Could not find suitable time slot'' else r)"

definition missingDependencies :: "calendarEvent list \<Rightarrow> task \<Rightarrow> string list" where
  "missingDependencies evs t =
     filter (\<lambda>depId. \<not> list_ex (\<lambda>e. taskId e = Some depId) evs) (dependencies t)"

text \<open>
  The loop of \<^verbatim>\<open>scheduleAllTasks\<close> run on the ranked flexible tasks.
\<close>

definition passLoop :: "clock \<Rightarrow> calendarSettings \<Rightarrow> calendarEvent list \<Rightarrow> task list \<Rightarrow> passState" where
  "passLoop clk st evs tasks =
     foldl (commitStep clk st) (evs, snd (prioritizeTasks clk 0 tasks), emptyResult)
       (flexibleTasks (fst (prioritizeTasks clk 0 tasks)))"

text \<open>
  \<open>commitsFree conflictSet new\<close>: each event of \<open>new\<close>, in order, is free of overlap
  with everything in the conflict set at its turn, the set growing by each event in
  turn. \<open>pairwiseFree\<close>: no two placements of a list overlap.
\<close>

fun commitsFree :: "calendarEvent list \<Rightarrow> calendarEvent list \<Rightarrow> bool" where
  "commitsFree conflictSet [] = True"
| "commitsFree conflictSet (ev # later) =
     (list_all (\<lambda>e. \<not> overlaps (event_start ev) (event_end ev) (event_start e) (event_end e))
        conflictSet
      \<and> commitsFree (conflictSet @ [ev]) later)"

fun pairwiseFree :: "placement list \<Rightarrow> bool" where
  "pairwiseFree [] = True"
| "pairwiseFree (p # ps) =
     (list_all (\<lambda>q. \<not> overlaps (placed_start q) (placed_end q) (placed_start p) (placed_end p)) ps
      \<and> pairwiseFree ps)"

definition intervalOfEvent :: "calendarEvent \<Rightarrow> string option \<times> date \<times> date" where
  "intervalOfEvent e = (taskId e, event_start e, event_end e)"

definition intervalOfPlacement :: "placement \<Rightarrow> string option \<times> date \<times> date" where
  "intervalOfPlacement p = (Some (placed_taskId p), placed_start p, placed_end p)"

text \<open>
  A placement has the exact duration of a task of the batch with its identifier.
\<close>

definition exactDuration :: "task list \<Rightarrow> placement \<Rightarrow> bool" where
  "exactDuration tasks p =
     list_ex (\<lambda>t. task_id t = placed_taskId p \<and>
        placed_end p = addMinutes (placed_start p) (estimatedDuration t)) tasks"

text \<open>
  The ranking score in the words of the specification: ten times the priority weight
  (high 3, medium 2, low 1), plus five times the urgency (10 when the deadline has
  passed, 8 when it is less than 24 hours away, 6 when less than 48 hours, 4 when less
  than 7 days, 2 otherwise, 0 with no deadline), plus three times the number of tasks
  of the batch whose dependencies name the task.
\<close>

definition specPriorityWeight :: "priority \<Rightarrow> int" where
  "specPriorityWeight p = (case p of High \<Rightarrow> 3 | Medium \<Rightarrow> 2 | Low \<Rightarrow> 1)"

definition specUrgency :: "date \<Rightarrow> date option \<Rightarrow> int" where
  "specUrgency now dl =
     (case dl of
        None \<Rightarrow> 0
      | Some d \<Rightarrow>
          if d < now then 10
          else if d - now < 24 * msPerHour then 8
          else if d - now < 48 * msPerHour then 6
          else if d - now < 7 * 24 * msPerHour then 4
          else 2)"

definition specDependents :: "task list \<Rightarrow> task \<Rightarrow> int" where
  "specDependents batch t =
     int (length (filter (\<lambda>u. task_id t \<in> set (dependencies u)) batch))"

definition specScore :: "date \<Rightarrow> task list \<Rightarrow> task \<Rightarrow> int" where
  "specScore now batch t =
     10 * specPriorityWeight (priority t) + 5 * specUrgency now (deadline t)
       + 3 * specDependents batch t"

text \<open>
  The pass in the words of the specification, with "now" captured once and passed
  down: the tasks are ranked by descending score at \<^verbatim>\<open>now\<close>, stably; each flexible
  task, in ranked order, fails with the missing dependencies, or searches the window
  from \<^verbatim>\<open>max now createdAt\<close> to the deadline (14 days later when there is none),
  fails with a fallback suggestion of the next day at 09:00 when no slot is found, or
  takes the slot with the best score, which joins the events; the suggestions count
  the failures and the tasks whose deadline is before \<^verbatim>\<open>now\<close>. The slot search, the
  slot score and the confidence, which read no clock, are those of the source.
\<close>

definition rankAt :: "date \<Rightarrow> task list \<Rightarrow> task list" where
  "rankAt now tasks = sort_key (\<lambda>t. - specScore now tasks t) tasks"

definition windowAt :: "date \<Rightarrow> task \<Rightarrow> date \<times> date" where
  "windowAt now t =
     (let start = max now (createdAt t)
      in (start, case deadline t of Some dl \<Rightarrow> dl | None \<Rightarrow> addDays start 14))"

definition fallbackAt :: "date \<Rightarrow> date" where
  "fallbackAt now = startOfDay (addDays now 1) + 9 * msPerHour"

definition placeAt :: "date \<Rightarrow> calendarSettings \<Rightarrow> calendarEvent list \<Rightarrow> task \<Rightarrow> attempt" where
  "placeAt now st evs t =
     (if missingDependencies evs t \<noteq> [] then
        NotScheduled (Some (''Dependencies not satisfied: '' @
          join '', '' (missingDependencies evs t))) None
      else
        (case findAvailableSlots st evs (fst (windowAt now t)) (snd (windowAt now t))
                (estimatedDuration t) of
           [] \<Rightarrow> NotScheduled (Some ''No available time slots found'') (Some (fallbackAt now))
         | first # rest \<Rightarrow>
             (let best = selectBestTimeSlot evs first rest t
              in Scheduled (slot_start best) (slot_end best)
                   (calculateSchedulingConfidence best t))))"

definition stepAt ::
  "date \<Rightarrow> calendarSettings \<Rightarrow> calendarEvent list \<times> schedulingResult \<Rightarrow> task \<Rightarrow>
     calendarEvent list \<times> schedulingResult" where
  "stepAt now st state t =
     (case state of (evs, r) \<Rightarrow>
        (case placeAt now st evs t of
           Scheduled s e c \<Rightarrow>
             (evs @ [taskEvent t s e],
              r\<lparr>scheduledTasks := scheduledTasks r @
                [\<lparr>placed_taskId = task_id t, placed_start = s, placed_end = e,
                  confidence = c\<rparr>]\<rparr>)
         | NotScheduled why sug \<Rightarrow>
             (evs,
              r\<lparr>unscheduledTasks := unscheduledTasks r @ [task_id t],
                conflicts := conflicts r @
                  [\<lparr>conflict_taskId = task_id t, reason = failureReason why,
                    suggestedTime = sug\<rparr>]\<rparr>)))"

definition overdueAt :: "date \<Rightarrow> task list \<Rightarrow> task list" where
  "overdueAt now tasks =
     filter (\<lambda>t. case deadline t of None \<Rightarrow> False | Some dl \<Rightarrow> dl < now) tasks"

definition suggestionsAt :: "date \<Rightarrow> schedulingResult \<Rightarrow> task list \<Rightarrow> suggestion list" where
  "suggestionsAt now r tasks =
     (if length (unscheduledTasks r) > 0 then
        [\<lparr>message = numberToString (length (unscheduledTasks r)) @
            '' tasks couldn't be scheduled. Consider extending working hours or reducing task load.'',
          actionType = Extend_hours,
          data = (''unscheduledCount'', length (unscheduledTasks r))\<rparr>]
      else [])
     @ (if length (overdueAt now tasks) > 0 then
          [\<lparr>message = numberToString (length (overdueAt now tasks)) @
              '' tasks are overdue. Consider adjusting deadlines or priorities.'',
            actionType = Adjust_deadlines,
            data = (''overdueCount'', length (overdueAt now tasks))\<rparr>]
        else [])"

definition scheduleAllAt ::
  "date \<Rightarrow> calendarSettings \<Rightarrow> calendarEvent list \<Rightarrow> task list \<Rightarrow>
     schedulingResult \<times> calendarEvent list \<times> task list" where
  "scheduleAllAt now st evs tasks =
     (let ranked = rankAt now tasks;
          (evs', r) = foldl (stepAt now st) (evs, emptyResult) (filter isFlexible ranked)
      in (r\<lparr>suggestions := suggestionsAt now r ranked,
            success := (unscheduledTasks r = [])\<rparr>, evs', ranked))"

text \<open>
Invariants of the loop.
\<close>

definition passInv :: "calendarEvent list \<Rightarrow> task list \<Rightarrow> passState \<Rightarrow> bool" where
  "passInv evs0 tasks state =
     (case state of (evs, n, r) \<Rightarrow>
        take (length evs0) evs = evs0 \<and>
        commitsFree evs0 (drop (length evs0) evs) \<and>
        map intervalOfEvent (drop (length evs0) evs) = map intervalOfPlacement (scheduledTasks r) \<and>
        list_all (exactDuration tasks) (scheduledTasks r))"

definition growInv :: "calendarEvent list \<Rightarrow> passState \<Rightarrow> bool" where
  "growInv evs0 state =
     (case state of (evs, n, r) \<Rightarrow>
        take (length evs0) evs = evs0 \<and>
        map intervalOfEvent (drop (length evs0) evs) = map intervalOfPlacement (scheduledTasks r))"


text \<open>
  Every task attempted so far is in exactly one of the two lists of the result, as
  often as it was attempted.
\<close>

definition partitionInv :: "task list \<Rightarrow> passState \<Rightarrow> bool" where
  "partitionInv done state =
     (case state of (evs, n, r) \<Rightarrow>
        mset (map placed_taskId (scheduledTasks r)) + mset (unscheduledTasks r)
          = mset (map task_id done))"

text \<open>
  Example inputs. The epoch, 1970-01-01, was a Thursday: 50400000 is that Thursday at
  14:00, 61200000 at 17:00, 118800000 the Friday at 09:00, and 1260000000 the Thursday
  two weeks later at 14:00.
\<close>

definition officeHours :: calendarSettings where
  "officeHours =
     \<lparr>workingHours = \<lparr>wh_start = ''09:00'', wh_end = ''17:00'', daysOfWeek = [1, 2, 3, 4, 5]\<rparr>,
      bufferTime = 15\<rparr>"

definition halfHourTask :: "string \<Rightarrow> priority \<Rightarrow> date option \<Rightarrow> task" where
  "halfHourTask name p dl =
     \<lparr>task_id = name, task_title = name, priority = p, estimatedDuration = 30,
      deadline = dl, createdAt = 0, dependencies = [], isFlexible = True\<rparr>"

definition meeting :: "date \<Rightarrow> date \<Rightarrow> calendarEvent" where
  "meeting s e =
     \<lparr>event_id = ''m'', event_title = ''meeting'', event_start = s, event_end = e,
      event_type = Meeting, taskId = None, event_isFlexible = False\<rparr>"

definition halfHourSlot :: "date \<Rightarrow> timeSlot" where
  "halfHourSlot s = \<lparr>slot_start = s, slot_end = s + 1800000, duration = 30, isAvailable = True\<rparr>"

definition noWorkingDays :: calendarSettings where
  "noWorkingDays =
     \<lparr>workingHours = \<lparr>wh_start = ''09:00'', wh_end = ''17:00'', daysOfWeek = []\<rparr>,
      bufferTime = 15\<rparr>"

definition afternoonMeeting :: calendarEvent where
  "afternoonMeeting = meeting 52200000 54000000"

definition taskA :: task where "taskA = halfHourTask ''a'' High (Some 61200000)"

definition taskB :: task where "taskB = halfHourTask ''b'' Low (Some 61200000)"

definition taskHigh :: task where "taskHigh = halfHourTask ''a'' High None"

definition taskLow :: task where "taskLow = halfHourTask ''b'' Low None"

definition taskFirst :: task where "taskFirst = halfHourTask ''a'' Medium None"

definition taskSecond :: task where "taskSecond = halfHourTask ''b'' Medium None"

definition taskNeedsX :: task where
  "taskNeedsX = (halfHourTask ''a'' Medium None)\<lparr>dependencies := [''x'']\<rparr>"

text \<open>
  Two clocks: one that returns the same instant at every reading, and one that
  advances by a millisecond from one reading to the next.
\<close>

definition frozenClock :: clock where "frozenClock = (\<lambda>_. 50400000)"

definition tickingClock :: clock where "tickingClock = (\<lambda>n. 50400000 + int n)"

text \<open>
  A store in which the caller holds one events array and one tasks array, both at
  reference 0.
\<close>

definition exampleStore :: store where
  "exampleStore =
     \<lparr>eventArrays = (\<lambda>_. [])(0 := [afternoonMeeting]),
      taskArrays = (\<lambda>_. [])(0 := [taskB, taskA])\<rparr>"

section \<open>Lemmas\<close>

subsection \<open>Slots are free of conflicts\<close>

lemma foldl_invariant:
  assumes "P s" and "\<And>s x. x \<in> set xs \<Longrightarrow> P s \<Longrightarrow> P (f s x)"
  shows "P (foldl f s xs)"
  using assms by (induction xs arbitrary: s) auto

lemma findConflicts_empty_iff:
  "findConflicts evs s e = [] \<longleftrightarrow>
     (\<forall>ev \<in> set evs. max s e < min (event_start ev) (event_end ev) \<or>
                     max (event_start ev) (event_end ev) < min s e)"
  unfolding findConflicts_def filter_empty_conv isWithinInterval_def Let_def
  by (intro ball_cong refl) (auto simp: min_def max_def)

lemma no_conflict_no_overlap:
  assumes "findConflicts evs s (addMinutes s (d + b)) = []" and "0 \<le> b" and "ev \<in> set evs"
  shows "\<not> overlaps s (addMinutes s d) (event_start ev) (event_end ev)"
proof -
  have "addMinutes s d \<le> addMinutes s (d + b)"
    using assms(2) by (simp add: addMinutes_def msPerMinute_def)
  moreover from assms(1,3) have
    "max s (addMinutes s (d + b)) < min (event_start ev) (event_end ev) \<or>
     max (event_start ev) (event_end ev) < min s (addMinutes s (d + b))"
    by (simp add: findConflicts_empty_iff)
  ultimately show ?thesis
    unfolding overlaps_def by (auto simp: min_def max_def split: if_splits)
qed

lemma findSlotsFrom_unfold:
  "findSlotsFrom st evs cur en d =
     (if cur \<le> en \<and> addMinutes cur (d + bufferTime st) \<le> en then
        (if findConflicts evs cur (addMinutes cur (d + bufferTime st)) = []
         then [\<lparr>slot_start = cur, slot_end = addMinutes cur d, duration = d, isAvailable = True\<rparr>]
         else [])
        @ findSlotsFrom st evs (cur + 15 * 60 * 1000) en d
      else [])"
  by (subst findSlotsFrom.simps) (simp add: Let_def)

lemma findSlotsFrom_slot:
  "slot \<in> set (findSlotsFrom st evs cur en d) \<Longrightarrow>
     findConflicts evs (slot_start slot) (addMinutes (slot_start slot) (d + bufferTime st)) = [] \<and>
     slot_end slot = addMinutes (slot_start slot) d \<and>
     cur \<le> slot_start slot \<and>
     addMinutes (slot_start slot) (d + bufferTime st) \<le> en \<and>
     (slot_start slot - cur) mod (15 * 60 * 1000) = 0"
proof (induction st evs cur en d rule: findSlotsFrom.induct)
  case (1 st evs cur en d)
  let ?here = "\<lparr>slot_start = cur, slot_end = addMinutes cur d, duration = d, isAvailable = True\<rparr>"
  have u: "slot \<in> set (if cur \<le> en \<and> addMinutes cur (d + bufferTime st) \<le> en then
        (if findConflicts evs cur (addMinutes cur (d + bufferTime st)) = []
         then [?here] else [])
        @ findSlotsFrom st evs (cur + 15 * 60 * 1000) en d
      else [])"
    using "1.prems" by (subst (asm) findSlotsFrom_unfold) assumption
  then have guard: "cur \<le> en" "\<not> addMinutes cur (d + bufferTime st) > en"
    by (simp_all split: if_splits)
  from u have mem: "(findConflicts evs cur (addMinutes cur (d + bufferTime st)) = [] \<and> slot = ?here)
       \<or> slot \<in> set (findSlotsFrom st evs (cur + 15 * 60 * 1000) en d)"
    by (auto split: if_splits)
  from mem show ?case
  proof
    assume "findConflicts evs cur (addMinutes cur (d + bufferTime st)) = [] \<and> slot = ?here"
    with guard show ?thesis by simp
  next
    assume a: "slot \<in> set (findSlotsFrom st evs (cur + 15 * 60 * 1000) en d)"
    have ih: "findConflicts evs (slot_start slot) (addMinutes (slot_start slot) (d + bufferTime st)) = [] \<and>
      slot_end slot = addMinutes (slot_start slot) d \<and>
      cur + 15 * 60 * 1000 \<le> slot_start slot \<and>
      addMinutes (slot_start slot) (d + bufferTime st) \<le> en \<and>
      (slot_start slot - (cur + 15 * 60 * 1000)) mod (15 * 60 * 1000) = 0"
      using "1.IH"[OF guard(1) refl refl guard(2) a] .
    have "slot_start slot - cur = (slot_start slot - (cur + 15 * 60 * 1000)) + 15 * 60 * 1000"
      by simp
    with ih have "(slot_start slot - cur) mod (15 * 60 * 1000) = 0"
      by (metis mod_add_self2)
    with ih show ?thesis by simp
  qed
qed

lemma daySlots_eq:
  "daySlots st evs current en d =
     (if getDay current \<in> set (daysOfWeek (workingHours st))
      then findSlotsFrom st evs (rangeStart st current) (rangeEnd st current en) d
      else [])"
  by (simp add: daySlots_def getWorkingHoursForDate_def findSlotsInRange_def
      rangeStart_def rangeEnd_def Let_def)

lemma findAvailableFrom_unfold:
  "findAvailableFrom st evs cur en d =
     (if cur < en then daySlots st evs cur en d
        @ findAvailableFrom st evs (startOfDay cur + msPerDay) en d
      else [])"
  by (subst findAvailableFrom.simps) simp

lemma startOfDay_next_gt: "cur < startOfDay cur + msPerDay"
proof -
  have "cur mod msPerDay < msPerDay" by (simp add: msPerDay_def)
  moreover have "cur = startOfDay cur + cur mod msPerDay"
    by (simp add: startOfDay_def)
  ultimately show ?thesis by linarith
qed

lemma startOfDay_next_mod: "(startOfDay cur + msPerDay) mod msPerDay = 0"
  by (simp add: startOfDay_def)

lemma findAvailableFrom_slot:
  "slot \<in> set (findAvailableFrom st evs cur en d) \<Longrightarrow>
     \<exists>c. (c = cur \<or> cur < c \<and> c mod msPerDay = 0) \<and>
         slot \<in> set (findSlotsFrom st evs (rangeStart st c) (rangeEnd st c en) d)"
proof (induction st evs cur en d rule: findAvailableFrom.induct)
  case (1 st evs cur en d)
  have u: "slot \<in> set (if cur < en then daySlots st evs cur en d
        @ findAvailableFrom st evs (startOfDay cur + msPerDay) en d else [])"
    using "1.prems" by (subst (asm) findAvailableFrom_unfold) assumption
  then have guard: "cur < en" by (simp split: if_splits)
  from u guard have "slot \<in> set (daySlots st evs cur en d)
      \<or> slot \<in> set (findAvailableFrom st evs (startOfDay cur + msPerDay) en d)"
    by simp
  then show ?case
  proof
    assume "slot \<in> set (daySlots st evs cur en d)"
    then have "slot \<in> set (findSlotsFrom st evs (rangeStart st cur) (rangeEnd st cur en) d)"
      by (simp add: daySlots_eq split: if_splits)
    then show ?thesis by (intro exI[of _ cur]) simp
  next
    assume "slot \<in> set (findAvailableFrom st evs (startOfDay cur + msPerDay) en d)"
    from "1.IH"[OF guard this] obtain c where
      cm: "(c = startOfDay cur + msPerDay \<or> startOfDay cur + msPerDay < c \<and> c mod msPerDay = 0)
        \<and> slot \<in> set (findSlotsFrom st evs (rangeStart st c) (rangeEnd st c en) d)" ..
    then have
      c: "c = startOfDay cur + msPerDay \<or> startOfDay cur + msPerDay < c \<and> c mod msPerDay = 0"
      and m: "slot \<in> set (findSlotsFrom st evs (rangeStart st c) (rangeEnd st c en) d)"
      by simp_all
    have "cur < c \<and> c mod msPerDay = 0"
    proof (cases "c = startOfDay cur + msPerDay")
      case True
      then show ?thesis
        using startOfDay_next_gt[of cur] startOfDay_next_mod[of cur] by simp
    next
      case False
      with c have "startOfDay cur + msPerDay < c" and "c mod msPerDay = 0" by simp_all
      then show ?thesis using startOfDay_next_gt[of cur] by linarith
    qed
    with m show ?thesis by (intro exI[of _ c]) simp
  qed
qed


lemma selectBestTimeSlot_mem:
  "selectBestTimeSlot evs first rest t \<in> set (first # rest)"
proof -
  have "foldl (\<lambda>best current.
        (let currentScore = scoreTimeSlot evs current t;
             bestScore = scoreTimeSlot evs best t
         in if currentScore > bestScore then current else best)) b xs \<in> set (b # xs)" for b xs
    by (induction xs arbitrary: b) (auto simp: Let_def)
  then show ?thesis by (simp add: selectBestTimeSlot_def)
qed

lemma scheduleTask_Scheduled:
  assumes "scheduleTask clk n st evs t = (Scheduled s e c, n1)"
  shows "\<exists>slot. slot \<in> set (findAvailableFrom st evs
             (fst (fst (calculateSchedulingWindow clk n t)))
             (snd (fst (calculateSchedulingWindow clk n t))) (estimatedDuration t)) \<and>
           s = slot_start slot \<and> e = slot_end slot \<and>
           c = calculateSchedulingConfidence slot t \<and> n1 = Suc n"
proof -
  let ?w = "fst (calculateSchedulingWindow clk n t)"
  let ?slots = "findAvailableFrom st evs (fst ?w) (snd ?w) (estimatedDuration t)"
  have n1: "snd (calculateSchedulingWindow clk n t) = Suc n"
    by (simp add: calculateSchedulingWindow_def Let_def)
  from assms obtain first rest where fr: "?slots = first # rest"
    and res: "(Scheduled s e c, n1) =
       (Scheduled (slot_start (selectBestTimeSlot evs first rest t))
          (slot_end (selectBestTimeSlot evs first rest t))
          (calculateSchedulingConfidence (selectBestTimeSlot evs first rest t) t), Suc n)"
    by (auto simp: scheduleTask_def findAvailableSlots_def Let_def n1 case_prod_beta
        split: if_splits list.splits)
  have "selectBestTimeSlot evs first rest t \<in> set ?slots"
    unfolding fr by (rule selectBestTimeSlot_mem)
  with res show ?thesis by auto
qed

lemma scheduleTask_free:
  assumes "scheduleTask clk n st evs t = (Scheduled s e c, n1)" and "0 \<le> bufferTime st"
  shows "e = addMinutes s (estimatedDuration t)"
    and "list_all (\<lambda>ev. \<not> overlaps s e (event_start ev) (event_end ev)) evs"
proof -
  from scheduleTask_Scheduled[OF assms(1)] obtain slot where
    sl: "slot \<in> set (findAvailableFrom st evs
             (fst (fst (calculateSchedulingWindow clk n t)))
             (snd (fst (calculateSchedulingWindow clk n t))) (estimatedDuration t)) \<and>
           s = slot_start slot \<and> e = slot_end slot \<and>
           c = calculateSchedulingConfidence slot t \<and> n1 = Suc n" ..
  then obtain c0 where "(c0 = fst (fst (calculateSchedulingWindow clk n t)) \<or>
          fst (fst (calculateSchedulingWindow clk n t)) < c0 \<and> c0 mod msPerDay = 0) \<and>
         slot \<in> set (findSlotsFrom st evs (rangeStart st c0)
            (rangeEnd st c0 (snd (fst (calculateSchedulingWindow clk n t)))) (estimatedDuration t))"
    using findAvailableFrom_slot by meson
  then have fs: "findConflicts evs (slot_start slot)
        (addMinutes (slot_start slot) (estimatedDuration t + bufferTime st)) = []"
    and en: "slot_end slot = addMinutes (slot_start slot) (estimatedDuration t)"
    using findSlotsFrom_slot by meson+
  from en sl show "e = addMinutes s (estimatedDuration t)" by simp
  have "\<not> overlaps s e (event_start ev) (event_end ev)" if "ev \<in> set evs" for ev
    using no_conflict_no_overlap[OF fs assms(2) that] en sl by simp
  then show "list_all (\<lambda>ev. \<not> overlaps s e (event_start ev) (event_end ev)) evs"
    by (simp add: list_all_iff)
qed

subsection \<open>Dependencies\<close>

lemma find_None_list_ex: "(find P xs = None) = (\<not> list_ex P xs)"
  by (auto simp: find_None_iff list_ex_iff)

lemma checkDependencies_missing:
  "snd (checkDependencies evs t) = missingDependencies evs t"
  "fst (checkDependencies evs t) = (missingDependencies evs t = [])"
  by (simp_all add: checkDependencies_def missingDependencies_def find_None_list_ex Let_def)

lemma scheduleTask_missing:
  assumes "missingDependencies evs t \<noteq> []"
  shows "scheduleTask clk n st evs t =
     (NotScheduled (Some (''Dependencies not satisfied: '' @ join '', '' (missingDependencies evs t)))
        None, n)"
  using assms by (simp add: scheduleTask_def checkDependencies_missing)


subsection \<open>The steps of the pass\<close>

lemma commitStep_Scheduled:
  "scheduleTask clk n st evs t = (Scheduled s e c, n1) \<Longrightarrow>
   commitStep clk st (evs, n, r) t =
     (evs @ [taskEvent t s e], n1,
      r\<lparr>scheduledTasks := scheduledTasks r @
        [\<lparr>placed_taskId = task_id t, placed_start = s, placed_end = e, confidence = c\<rparr>]\<rparr>)"
  by (simp add: commitStep_def taskEvent_def)

lemma commitStep_NotScheduled:
  "scheduleTask clk n st evs t = (NotScheduled why sug, n1) \<Longrightarrow>
   commitStep clk st (evs, n, r) t =
     (evs, n1,
      r\<lparr>unscheduledTasks := unscheduledTasks r @ [task_id t],
        conflicts := conflicts r @
          [\<lparr>conflict_taskId = task_id t, reason = failureReason why, suggestedTime = sug\<rparr>]\<rparr>)"
  by (simp add: commitStep_def failureReason_def)

lemma commitStep_cases:
  obtains (placed) evs n r s e c n1 where "state = (evs, n, r)"
      "scheduleTask clk n st evs t = (Scheduled s e c, n1)"
      "commitStep clk st state t =
         (evs @ [taskEvent t s e], n1,
          r\<lparr>scheduledTasks := scheduledTasks r @
            [\<lparr>placed_taskId = task_id t, placed_start = s, placed_end = e, confidence = c\<rparr>]\<rparr>)"
  | (failed) evs n r why sug n1 where "state = (evs, n, r)"
      "scheduleTask clk n st evs t = (NotScheduled why sug, n1)"
      "commitStep clk st state t =
         (evs, n1,
          r\<lparr>unscheduledTasks := unscheduledTasks r @ [task_id t],
            conflicts := conflicts r @
              [\<lparr>conflict_taskId = task_id t, reason = failureReason why, suggestedTime = sug\<rparr>]\<rparr>)"
proof -
  obtain evs n r where state: "state = (evs, n, r)" by (cases state)
  obtain a n1 where att: "scheduleTask clk n st evs t = (a, n1)"
    by (cases "scheduleTask clk n st evs t")
  show thesis
  proof (cases a)
    case (Scheduled s e c)
    with att have "scheduleTask clk n st evs t = (Scheduled s e c, n1)" by simp
    from placed[OF state this] commitStep_Scheduled[OF this, of r] state show thesis by simp
  next
    case (NotScheduled why sug)
    with att have "scheduleTask clk n st evs t = (NotScheduled why sug, n1)" by simp
    from failed[OF state this] commitStep_NotScheduled[OF this, of r] state show thesis by simp
  qed
qed

lemma scheduleAllTasks_parts:
  "scheduledTasks (fst (scheduleAllTasks clk st evs tasks)) =
     scheduledTasks (snd (snd (passLoop clk st evs tasks)))"
  "unscheduledTasks (fst (scheduleAllTasks clk st evs tasks)) =
     unscheduledTasks (snd (snd (passLoop clk st evs tasks)))"
  "conflicts (fst (scheduleAllTasks clk st evs tasks)) =
     conflicts (snd (snd (passLoop clk st evs tasks)))"
  "success (fst (scheduleAllTasks clk st evs tasks)) =
     (unscheduledTasks (snd (snd (passLoop clk st evs tasks))) = [])"
  "fst (snd (scheduleAllTasks clk st evs tasks)) = fst (passLoop clk st evs tasks)"
  "snd (snd (scheduleAllTasks clk st evs tasks)) = fst (prioritizeTasks clk 0 tasks)"
  by (simp_all add: scheduleAllTasks_def passLoop_def case_prod_beta Let_def)

lemma insertTask_mset: "mset (fst (insertTask clk n all x ys)) = add_mset x (mset ys)"
  by (induction ys arbitrary: n) (simp_all add: case_prod_beta Let_def)

lemma sortTasks_mset: "mset (fst (sortTasks clk n all xs)) = mset xs"
  by (induction xs arbitrary: n) (simp_all add: case_prod_beta Let_def insertTask_mset)

lemma prioritizeTasks_mset: "mset (fst (prioritizeTasks clk n tasks)) = mset tasks"
  by (simp add: prioritizeTasks_def sortTasks_mset)

lemma flexibleTasks_subset: "set (flexibleTasks (fst (prioritizeTasks clk n tasks))) \<subseteq> set tasks"
proof -
  have "set (fst (prioritizeTasks clk n tasks)) = set tasks"
    using prioritizeTasks_mset[of clk n tasks] by (metis set_mset_mset)
  then show ?thesis by (auto simp: flexibleTasks_def)
qed

lemma commitsFree_snoc:
  "commitsFree pre (new @ [ev]) =
     (commitsFree pre new \<and>
      list_all (\<lambda>e. \<not> overlaps (event_start ev) (event_end ev) (event_start e) (event_end e))
        (pre @ new))"
  by (induction new arbitrary: pre) auto

lemma pairwiseFree_snoc:
  "pairwiseFree (ps @ [q]) =
     (pairwiseFree ps \<and>
      list_all (\<lambda>p. \<not> overlaps (placed_start q) (placed_end q) (placed_start p) (placed_end p)) ps)"
  by (induction ps) auto

lemma passInv_step:
  assumes inv: "passInv evs0 tasks state" and t: "t \<in> set tasks" and b: "0 \<le> bufferTime st"
  shows "passInv evs0 tasks (commitStep clk st state t)"
proof -
  obtain evs n r where state: "state = (evs, n, r)" by (cases state)
  from inv state have pre: "take (length evs0) evs = evs0"
    and free: "commitsFree evs0 (drop (length evs0) evs)"
    and iv: "map intervalOfEvent (drop (length evs0) evs) = map intervalOfPlacement (scheduledTasks r)"
    and dur: "list_all (exactDuration tasks) (scheduledTasks r)"
    by (simp_all add: passInv_def)
  have "length (take (length evs0) evs) = length evs0" using pre by simp
  then have len: "length evs0 \<le> length evs" by simp
  from pre have split: "evs0 @ drop (length evs0) evs = evs"
    by (metis append_take_drop_id)
  obtain a n1 where att: "scheduleTask clk n st evs t = (a, n1)" by (cases "scheduleTask clk n st evs t")
  show ?thesis
  proof (cases a)
    case (Scheduled s e c)
    with att have st: "scheduleTask clk n st evs t = (Scheduled s e c, n1)" by simp
    note step = commitStep_Scheduled[OF st, of r]
    from scheduleTask_free[OF st b] have e: "e = addMinutes s (estimatedDuration t)"
      and fr: "list_all (\<lambda>ev. \<not> overlaps s e (event_start ev) (event_end ev)) evs"
      by simp_all
    have 1: "take (length evs0) (evs @ [taskEvent t s e]) = evs0"
      using pre len by simp
    have 2: "drop (length evs0) (evs @ [taskEvent t s e]) = drop (length evs0) evs @ [taskEvent t s e]"
      using len by simp
    have 3: "commitsFree evs0 (drop (length evs0) evs @ [taskEvent t s e])"
      using free fr split by (simp add: commitsFree_snoc taskEvent_def)
    have 4: "exactDuration tasks
        \<lparr>placed_taskId = task_id t, placed_start = s, placed_end = e, confidence = c\<rparr>"
      using t e by (auto simp: exactDuration_def list_ex_iff)
    show ?thesis
      unfolding state step passInv_def
      using 1 2 3 4 iv dur
      by (simp add: intervalOfEvent_def intervalOfPlacement_def taskEvent_def)
  next
    case (NotScheduled why sug)
    with att have "scheduleTask clk n st evs t = (NotScheduled why sug, n1)" by simp
    note step = commitStep_NotScheduled[OF this, of r]
    show ?thesis
      unfolding state step passInv_def
      using pre free iv dur by simp
  qed
qed

lemma passInv_loop:
  assumes "0 \<le> bufferTime st"
  shows "passInv evs tasks (passLoop clk st evs tasks)"
  unfolding passLoop_def
proof (rule foldl_invariant)
  show "passInv evs tasks (evs, snd (prioritizeTasks clk 0 tasks), emptyResult)"
    by (simp add: passInv_def emptyResult_def)
next
  fix s x
  assume "x \<in> set (flexibleTasks (fst (prioritizeTasks clk 0 tasks)))" and "passInv evs tasks s"
  then show "passInv evs tasks (commitStep clk st s x)"
    using passInv_step[OF _ _ assms] flexibleTasks_subset by blast
qed

lemma commitsFree_pairwise:
  "commitsFree pre new \<Longrightarrow> map intervalOfEvent new = map intervalOfPlacement ps \<Longrightarrow>
   pairwiseFree ps"
proof (induction new arbitrary: ps rule: rev_induct)
  case Nil
  then show ?case by simp
next
  case (snoc ev new)
  from snoc.prems(2) obtain ps' q where ps: "ps = ps' @ [q]"
    and m: "map intervalOfEvent new = map intervalOfPlacement ps'"
    and q: "intervalOfEvent ev = intervalOfPlacement q"
    by (cases ps rule: rev_cases) auto
  from snoc.prems(1) have free: "commitsFree pre new"
    and fr: "list_all (\<lambda>e. \<not> overlaps (event_start ev) (event_end ev) (event_start e) (event_end e)) new"
    by (simp_all add: commitsFree_snoc)
  have "\<not> overlaps (placed_start q) (placed_end q) (placed_start p) (placed_end p)"
    if "p \<in> set ps'" for p
  proof -
    from that have "intervalOfPlacement p \<in> set (map intervalOfEvent new)"
      unfolding m by simp
    then obtain e where "e \<in> set new" and "intervalOfEvent e = intervalOfPlacement p"
      by auto
    with fr q show ?thesis
      by (auto simp: list_all_iff intervalOfEvent_def intervalOfPlacement_def)
  qed
  with snoc.IH[OF free m] show ?case
    by (simp add: ps pairwiseFree_snoc list_all_iff)
qed

lemma growInv_foldl:
  "growInv evs (foldl (commitStep clk st) (evs, n, emptyResult) ts)"
proof (induction ts rule: rev_induct)
  case Nil
  show ?case by (simp add: growInv_def emptyResult_def)
next
  case (snoc t ts)
  obtain evs1 n1 r where state: "foldl (commitStep clk st) (evs, n, emptyResult) ts = (evs1, n1, r)"
    by (cases "foldl (commitStep clk st) (evs, n, emptyResult) ts")
  with snoc.IH have pre: "take (length evs) evs1 = evs"
    and iv: "map intervalOfEvent (drop (length evs) evs1) = map intervalOfPlacement (scheduledTasks r)"
    by (simp_all add: growInv_def)
  have "length (take (length evs) evs1) = length evs" using pre by simp
  then have len: "length evs \<le> length evs1" by simp
  obtain a n2 where att: "scheduleTask clk n1 st evs1 t = (a, n2)"
    by (cases "scheduleTask clk n1 st evs1 t")
  show ?case
  proof (cases a)
    case (Scheduled s e c)
    with att have "scheduleTask clk n1 st evs1 t = (Scheduled s e c, n2)" by simp
    from commitStep_Scheduled[OF this, of r] pre iv len show ?thesis
      by (simp add: state growInv_def intervalOfEvent_def intervalOfPlacement_def taskEvent_def)
  next
    case (NotScheduled why sug)
    with att have "scheduleTask clk n1 st evs1 t = (NotScheduled why sug, n2)" by simp
    from commitStep_NotScheduled[OF this, of r] pre iv show ?thesis
      by (simp add: state growInv_def)
  qed
qed


lemma partitionInv_foldl:
  "partitionInv ts (foldl (commitStep clk st) (evs, n, emptyResult) ts)"
proof (induction ts rule: rev_induct)
  case Nil
  show ?case by (simp add: partitionInv_def emptyResult_def)
next
  case (snoc t ts)
  let ?state = "foldl (commitStep clk st) (evs, n, emptyResult) ts"
  show ?case
  proof (cases rule: commitStep_cases[of ?state clk st t])
    case (placed evs1 n1 r s e c n2)
    with snoc.IH show ?thesis by (simp add: partitionInv_def)
  next
    case (failed evs1 n1 r why sug n2)
    with snoc.IH show ?thesis by (simp add: partitionInv_def)
  qed
qed

lemma flexibleTasks_mset:
  "mset (flexibleTasks (fst (prioritizeTasks clk n tasks))) = mset (filter isFlexible tasks)"
  by (simp add: flexibleTasks_def prioritizeTasks_mset)

subsection \<open>Ranking under a clock that stands still\<close>

lemma hours_less_iff:
  "((of_int x :: rat) / (1000 * 60 * 60) < of_int k) = (x < k * (1000 * 60 * 60))"
proof -
  have "((of_int x :: rat) / (1000 * 60 * 60) < of_int k)
      = ((of_int x :: rat) < of_int k * (1000 * 60 * 60))"
    by (simp add: pos_divide_less_eq)
  also have "\<dots> = ((of_int x :: rat) < of_int (k * (1000 * 60 * 60)))" by simp
  also have "\<dots> = (x < k * (1000 * 60 * 60))" by (rule of_int_less_iff)
  finally show ?thesis .
qed

lemma getUrgencyScore_frozen:
  assumes "\<forall>k. clk k = now"
  shows "fst (getUrgencyScore clk n t) = specUrgency now (deadline t)"
proof (cases "deadline t")
  case None
  then show ?thesis by (simp add: getUrgencyScore_def specUrgency_def)
next
  case (Some dl)
  have h: "((of_int (dl - now) :: rat) / (1000 * 60 * 60) < of_int k)
      = (dl - now < k * (1000 * 60 * 60))" for k
    by (rule hours_less_iff)
  from h[of 0] h[of 24] h[of 48] h[of 168] show ?thesis
    using assms Some
    by (simp add: getUrgencyScore_def specUrgency_def Let_def msPerHour_def)
qed

lemma compareTasks_frozen:
  assumes "\<forall>k. clk k = now"
  shows "fst (compareTasks clk n batch a b) = specScore now batch b - specScore now batch a"
proof -
  have w: "getPriorityWeight p = specPriorityWeight p" for p
    by (cases p) (simp_all add: getPriorityWeight_def specPriorityWeight_def)
  have d: "getDependencyLevel t batch = specDependents batch t" for t
    by (simp add: getDependencyLevel_def specDependents_def)
  show ?thesis
    by (simp add: compareTasks_def case_prod_beta Let_def w d specScore_def
        getUrgencyScore_frozen[OF assms])
qed

lemma insertTask_frozen:
  assumes "\<forall>k. clk k = now"
  shows "fst (insertTask clk n batch x ys) = insort_key (\<lambda>t. - specScore now batch t) x ys"
proof (induction ys arbitrary: n)
  case Nil
  show ?case by simp
next
  case (Cons y ys)
  have c: "(fst (compareTasks clk n batch x y) \<le> 0)
      = (- specScore now batch x \<le> - specScore now batch y)"
    by (simp add: compareTasks_frozen[OF assms])
  show ?case
    using Cons.IH c by (simp add: case_prod_beta Let_def)
qed

lemma sortTasks_frozen:
  assumes "\<forall>k. clk k = now"
  shows "fst (sortTasks clk n batch xs) = sort_key (\<lambda>t. - specScore now batch t) xs"
  by (induction xs arbitrary: n) (simp_all add: case_prod_beta Let_def insertTask_frozen[OF assms])

subsection \<open>The pass under a clock that stands still\<close>

lemma prioritizeTasks_frozen:
  assumes "\<forall>k. clk k = now"
  shows "fst (prioritizeTasks clk n tasks) = rankAt now tasks"
  by (simp add: prioritizeTasks_def rankAt_def sortTasks_frozen[OF assms])

lemma scheduleTask_frozen:
  assumes "\<forall>k. clk k = now"
  shows "fst (scheduleTask clk n st evs t) = placeAt now st evs t"
proof -
  have w: "fst (calculateSchedulingWindow clk n t) = windowAt now t"
    using assms
    by (simp add: calculateSchedulingWindow_def windowAt_def Let_def max_def
        split: option.splits)
  have f: "fst (suggestAlternativeTime clk m) = fallbackAt now" for m
    using assms by (simp add: suggestAlternativeTime_def fallbackAt_def Let_def)
  show ?thesis
    by (simp add: scheduleTask_def placeAt_def checkDependencies_missing w f
        case_prod_beta Let_def split: list.splits)
qed

lemma passLoop_frozen:
  assumes "\<forall>k. clk k = now"
  shows "(fst (foldl (commitStep clk st) (evs, n, r) ts),
          snd (snd (foldl (commitStep clk st) (evs, n, r) ts)))
       = foldl (stepAt now st) (evs, r) ts"
proof (induction ts arbitrary: evs n r)
  case Nil
  show ?case by simp
next
  case (Cons t ts)
  obtain a n1 where att: "scheduleTask clk n st evs t = (a, n1)"
    by (cases "scheduleTask clk n st evs t")
  with scheduleTask_frozen[OF assms, of n st evs t] have p: "placeAt now st evs t = a" by simp
  show ?case
  proof (cases a)
    case (Scheduled s e c)
    with att have "scheduleTask clk n st evs t = (Scheduled s e c, n1)" by simp
    from commitStep_Scheduled[OF this, of r] Cons.IH p Scheduled show ?thesis
      by (simp add: stepAt_def)
  next
    case (NotScheduled why sug)
    with att have "scheduleTask clk n st evs t = (NotScheduled why sug, n1)" by simp
    from commitStep_NotScheduled[OF this, of r] Cons.IH p NotScheduled show ?thesis
      by (simp add: stepAt_def)
  qed
qed

lemma overdueTasks_frozen:
  assumes "\<forall>k. clk k = now"
  shows "fst (overdueTasks clk n ts) = overdueAt now ts"
proof (induction ts arbitrary: n)
  case Nil
  show ?case by (simp add: overdueAt_def)
next
  case (Cons t ts)
  show ?case
  proof (cases "deadline t")
    case None
    with Cons.IH[of n] show ?thesis by (simp add: overdueAt_def)
  next
    case (Some dl)
    with Cons.IH[of "Suc n"] assms show ?thesis
      by (simp add: overdueAt_def case_prod_beta Let_def)
  qed
qed

lemma generateSuggestions_frozen:
  assumes "\<forall>k. clk k = now"
  shows "fst (generateSuggestions clk n r ts) = suggestionsAt now r ts"
  by (simp add: generateSuggestions_def suggestionsAt_def case_prod_beta Let_def
      overdueTasks_frozen[OF assms])

subsection \<open>The deadline term of the slot score\<close>

lemma deadlinePoints_le_10: "deadlinePoints slot t \<le> 10"
  by (simp add: deadlinePoints_def Let_def split: option.splits)

lemma deadlinePoints_antimono:
  assumes "slot_start a \<le> slot_start b"
  shows "deadlinePoints b t \<le> deadlinePoints a t"
proof (cases "deadline t")
  case None
  then show ?thesis by (simp add: deadlinePoints_def)
next
  case (Some dl)
  have le: "(of_int (dl - slot_start b) :: rat) \<le> of_int (dl - slot_start a)"
    using assms by simp
  then have "(of_int (dl - slot_start b) :: rat) / (1000 * 60 * 60) / 24
      \<le> of_int (dl - slot_start a) / (1000 * 60 * 60) / 24"
    by (simp add: divide_right_mono)
  with le show ?thesis
    unfolding deadlinePoints_def Let_def Some option.case
    by (auto simp: min_def divide_right_mono)
qed

subsection \<open>Concrete runs\<close>

text \<open>
  A run is evaluated in stages: the ranking, then for each task the dependency check,
  the window, the slots and the selection, each on its own.
\<close>

lemma scheduleTask_placed:
  assumes "fst (checkDependencies evs t)"
    and "calculateSchedulingWindow clk n t = ((ws, we), n1)"
    and "findAvailableSlots st evs ws we (estimatedDuration t) \<noteq> []"
    and "selectBestTimeSlot evs (hd (findAvailableSlots st evs ws we (estimatedDuration t)))
           (tl (findAvailableSlots st evs ws we (estimatedDuration t))) t = best"
  shows "scheduleTask clk n st evs t =
     (Scheduled (slot_start best) (slot_end best) (calculateSchedulingConfidence best t), n1)"
proof -
  from assms(3) obtain first rest where
    fr: "findAvailableSlots st evs ws we (estimatedDuration t) = first # rest"
    by (cases "findAvailableSlots st evs ws we (estimatedDuration t)") auto
  with assms(1,2,4) show ?thesis by (simp add: scheduleTask_def)
qed

lemma scheduleTask_no_slot:
  assumes "fst (checkDependencies evs t)"
    and "calculateSchedulingWindow clk n t = ((ws, we), n1)"
    and "findAvailableSlots st evs ws we (estimatedDuration t) = []"
  shows "scheduleTask clk n st evs t =
     (NotScheduled (Some ''No available time slots found'')
        (Some (fst (suggestAlternativeTime clk n1))), snd (suggestAlternativeTime clk n1))"
  using assms by (simp add: scheduleTask_def case_prod_beta)

lemma two_placed_run:
  assumes "prioritizeTasks clk 0 tasks = ([x, y], n0)"
    and "isFlexible x" and "isFlexible y"
    and "scheduleTask clk n0 st evs x = (Scheduled s1 e1 c1, n1)"
    and "scheduleTask clk n1 st (evs @ [taskEvent x s1 e1]) y = (Scheduled s2 e2 c2, n2)"
  shows "scheduleAllTasks clk st evs tasks =
     (\<lparr>success = True,
        scheduledTasks =
          [\<lparr>placed_taskId = task_id x, placed_start = s1, placed_end = e1, confidence = c1\<rparr>,
           \<lparr>placed_taskId = task_id y, placed_start = s2, placed_end = e2, confidence = c2\<rparr>],
        unscheduledTasks = [], conflicts = [],
        suggestions = fst (generateSuggestions clk n2
          \<lparr>success = True,
            scheduledTasks =
              [\<lparr>placed_taskId = task_id x, placed_start = s1, placed_end = e1, confidence = c1\<rparr>,
               \<lparr>placed_taskId = task_id y, placed_start = s2, placed_end = e2, confidence = c2\<rparr>],
            unscheduledTasks = [], conflicts = [], suggestions = []\<rparr> [x, y])\<rparr>,
      evs @ [taskEvent x s1 e1, taskEvent y s2 e2], [x, y])"
proof -
  note step1 = commitStep_Scheduled[OF assms(4), of emptyResult, unfolded emptyResult_def]
  from commitStep_Scheduled[OF assms(5)] show ?thesis
    by (simp add: scheduleAllTasks_def assms(1,2,3) flexibleTasks_def emptyResult_def step1
        case_prod_beta)
qed

lemma one_failed_run:
  assumes "prioritizeTasks clk 0 tasks = ([x], n0)"
    and "isFlexible x"
    and "scheduleTask clk n0 st evs x = (NotScheduled (Some why) sug, n1)" and "why \<noteq> []"
  shows "scheduleAllTasks clk st evs tasks =
     (\<lparr>success = False, scheduledTasks = [], unscheduledTasks = [task_id x],
        conflicts = [\<lparr>conflict_taskId = task_id x, reason = why, suggestedTime = sug\<rparr>],
        suggestions = fst (generateSuggestions clk n1
          \<lparr>success = True, scheduledTasks = [], unscheduledTasks = [task_id x],
            conflicts = [\<lparr>conflict_taskId = task_id x, reason = why, suggestedTime = sug\<rparr>],
            suggestions = []\<rparr> [x])\<rparr>,
      evs, [x])"
proof -
  from commitStep_NotScheduled[OF assms(3), of emptyResult, unfolded emptyResult_def] assms(4)
  show ?thesis
    by (simp add: scheduleAllTasks_def assms(1,2) flexibleTasks_def emptyResult_def
        case_prod_beta failureReason_def)
qed

lemma frozen_steps:
  "prioritizeTasks frozenClock 0 [taskB, taskA] = ([taskA, taskB], 2) \<and>
   scheduleTask frozenClock 2 officeHours [afternoonMeeting] taskA
     = (Scheduled 54900000 56700000 (7 / 10), 3) \<and>
   scheduleTask frozenClock 3 officeHours
       ([afternoonMeeting] @ [taskEvent taskA 54900000 56700000]) taskB
     = (Scheduled 57600000 59400000 (7 / 10), 4)"
proof -
  let ?m = "afternoonMeeting"
  have rank: "prioritizeTasks frozenClock 0 [taskB, taskA] = ([taskA, taskB], 2)" by code_simp
  have a: "scheduleTask frozenClock 2 officeHours [?m] taskA = (Scheduled 54900000 56700000 (7 / 10), 3)"
  proof -
    have 1: "fst (checkDependencies [?m] taskA)" by code_simp
    have 2: "calculateSchedulingWindow frozenClock 2 taskA = ((50400000, 61200000), 3)" by code_simp
    have 3: "findAvailableSlots officeHours [?m] 50400000 61200000 (estimatedDuration taskA) \<noteq> []"
      by code_simp
    have 4: "selectBestTimeSlot [?m]
        (hd (findAvailableSlots officeHours [?m] 50400000 61200000 (estimatedDuration taskA)))
        (tl (findAvailableSlots officeHours [?m] 50400000 61200000 (estimatedDuration taskA)))
        taskA = halfHourSlot 54900000" by code_simp
    have 5: "calculateSchedulingConfidence (halfHourSlot 54900000) taskA = 7 / 10" by code_simp
    from scheduleTask_placed[OF 1 2 3 4] 5 show ?thesis by (simp add: halfHourSlot_def)
  qed
  have b: "scheduleTask frozenClock 3 officeHours ([?m] @ [taskEvent taskA 54900000 56700000]) taskB
      = (Scheduled 57600000 59400000 (7 / 10), 4)"
  proof -
    let ?evs = "[?m] @ [taskEvent taskA 54900000 56700000]"
    have 1: "fst (checkDependencies ?evs taskB)" by code_simp
    have 2: "calculateSchedulingWindow frozenClock 3 taskB = ((50400000, 61200000), 4)" by code_simp
    have 3: "findAvailableSlots officeHours ?evs 50400000 61200000 (estimatedDuration taskB) \<noteq> []"
      by code_simp
    have 4: "selectBestTimeSlot ?evs
        (hd (findAvailableSlots officeHours ?evs 50400000 61200000 (estimatedDuration taskB)))
        (tl (findAvailableSlots officeHours ?evs 50400000 61200000 (estimatedDuration taskB)))
        taskB = halfHourSlot 57600000" by code_simp
    have 5: "calculateSchedulingConfidence (halfHourSlot 57600000) taskB = 7 / 10" by code_simp
    from scheduleTask_placed[OF 1 2 3 4] 5 show ?thesis by (simp add: halfHourSlot_def)
  qed
  from rank a b show ?thesis by simp
qed

lemma frozen_run:
  "scheduleAllTasks frozenClock officeHours [afternoonMeeting] [taskB, taskA] =
     (\<lparr>success = True,
        scheduledTasks =
          [\<lparr>placed_taskId = ''a'', placed_start = 54900000, placed_end = 56700000,
             confidence = 7 / 10\<rparr>,
           \<lparr>placed_taskId = ''b'', placed_start = 57600000, placed_end = 59400000,
             confidence = 7 / 10\<rparr>],
        unscheduledTasks = [], conflicts = [], suggestions = []\<rparr>,
      [afternoonMeeting, taskEvent taskA 54900000 56700000,
       taskEvent taskB 57600000 59400000],
      [taskA, taskB])"
proof -
  have fa: "isFlexible taskA" and fb: "isFlexible taskB" by code_simp+
  have ids: "task_id taskA = ''a''" "task_id taskB = ''b''" by code_simp+
  have sug: "fst (generateSuggestions frozenClock 4
      \<lparr>success = True,
        scheduledTasks =
          [\<lparr>placed_taskId = ''a'', placed_start = 54900000, placed_end = 56700000,
             confidence = 7 / 10\<rparr>,
           \<lparr>placed_taskId = ''b'', placed_start = 57600000, placed_end = 59400000,
             confidence = 7 / 10\<rparr>],
        unscheduledTasks = [], conflicts = [], suggestions = []\<rparr> [taskA, taskB]) = []"
    by code_simp
  from frozen_steps have rank: "prioritizeTasks frozenClock 0 [taskB, taskA] = ([taskA, taskB], 2)"
    and a: "scheduleTask frozenClock 2 officeHours [afternoonMeeting] taskA
     = (Scheduled 54900000 56700000 (7 / 10), 3)"
    and b: "scheduleTask frozenClock 3 officeHours
       ([afternoonMeeting] @ [taskEvent taskA 54900000 56700000]) taskB
     = (Scheduled 57600000 59400000 (7 / 10), 4)" by simp_all
  from two_placed_run[OF rank fa fb a b] show ?thesis by (simp add: ids sug)
qed

lemma ticking_run:
  "scheduleAllTasks tickingClock officeHours [afternoonMeeting] [taskB, taskA] =
     (\<lparr>success = True,
        scheduledTasks =
          [\<lparr>placed_taskId = ''a'', placed_start = 54000002, placed_end = 55800002,
             confidence = 7 / 10\<rparr>,
           \<lparr>placed_taskId = ''b'', placed_start = 55800003, placed_end = 57600003,
             confidence = 7 / 10\<rparr>],
        unscheduledTasks = [], conflicts = [], suggestions = []\<rparr>,
      [afternoonMeeting, taskEvent taskA 54000002 55800002,
       taskEvent taskB 55800003 57600003],
      [taskA, taskB])"
proof -
  let ?m = "afternoonMeeting"
  have rank: "prioritizeTasks tickingClock 0 [taskB, taskA] = ([taskA, taskB], 2)" by code_simp
  have fa: "isFlexible taskA" and fb: "isFlexible taskB" by code_simp+
  have a: "scheduleTask tickingClock 2 officeHours [?m] taskA
      = (Scheduled 54000002 55800002 (7 / 10), 3)"
  proof -
    have 1: "fst (checkDependencies [?m] taskA)" by code_simp
    have 2: "calculateSchedulingWindow tickingClock 2 taskA = ((50400002, 61200000), 3)"
      by code_simp
    have 3: "findAvailableSlots officeHours [?m] 50400002 61200000 (estimatedDuration taskA) \<noteq> []"
      by code_simp
    have 4: "selectBestTimeSlot [?m]
        (hd (findAvailableSlots officeHours [?m] 50400002 61200000 (estimatedDuration taskA)))
        (tl (findAvailableSlots officeHours [?m] 50400002 61200000 (estimatedDuration taskA)))
        taskA = halfHourSlot 54000002" by code_simp
    have 5: "calculateSchedulingConfidence (halfHourSlot 54000002) taskA = 7 / 10" by code_simp
    from scheduleTask_placed[OF 1 2 3 4] 5 show ?thesis by (simp add: halfHourSlot_def)
  qed
  have b: "scheduleTask tickingClock 3 officeHours ([?m] @ [taskEvent taskA 54000002 55800002]) taskB
      = (Scheduled 55800003 57600003 (7 / 10), 4)"
  proof -
    let ?evs = "[?m] @ [taskEvent taskA 54000002 55800002]"
    have 1: "fst (checkDependencies ?evs taskB)" by code_simp
    have 2: "calculateSchedulingWindow tickingClock 3 taskB = ((50400003, 61200000), 4)"
      by code_simp
    have 3: "findAvailableSlots officeHours ?evs 50400003 61200000 (estimatedDuration taskB) \<noteq> []"
      by code_simp
    have 4: "selectBestTimeSlot ?evs
        (hd (findAvailableSlots officeHours ?evs 50400003 61200000 (estimatedDuration taskB)))
        (tl (findAvailableSlots officeHours ?evs 50400003 61200000 (estimatedDuration taskB)))
        taskB = halfHourSlot 55800003" by code_simp
    have 5: "calculateSchedulingConfidence (halfHourSlot 55800003) taskB = 7 / 10" by code_simp
    from scheduleTask_placed[OF 1 2 3 4] 5 show ?thesis by (simp add: halfHourSlot_def)
  qed
  have ids: "task_id taskA = ''a''" "task_id taskB = ''b''" by code_simp+
  have sug: "fst (generateSuggestions tickingClock 4
      \<lparr>success = True,
        scheduledTasks =
          [\<lparr>placed_taskId = ''a'', placed_start = 54000002, placed_end = 55800002,
             confidence = 7 / 10\<rparr>,
           \<lparr>placed_taskId = ''b'', placed_start = 55800003, placed_end = 57600003,
             confidence = 7 / 10\<rparr>],
        unscheduledTasks = [], conflicts = [], suggestions = []\<rparr> [taskA, taskB]) = []"
    by code_simp
  from two_placed_run[OF rank fa fb a b] show ?thesis by (simp add: ids sug)
qed

lemma two_week_run:
  assumes t1: "t1 = halfHourTask ''a'' p1 None" and t2: "t2 = halfHourTask ''b'' p2 None"
    and rank: "prioritizeTasks frozenClock 0 [t1, t2] = ([t1, t2], 0)"
    and s1: "selectBestTimeSlot []
        (hd (findAvailableSlots officeHours [] 50400000 1260000000 30))
        (tl (findAvailableSlots officeHours [] 50400000 1260000000 30)) t1 = halfHourSlot start1"
    and c1: "calculateSchedulingConfidence (halfHourSlot start1) t1 = conf1"
    and n2: "findAvailableSlots officeHours [taskEvent t1 start1 (start1 + 1800000)]
        50400000 1260000000 30 \<noteq> []"
    and s2: "selectBestTimeSlot [taskEvent t1 start1 (start1 + 1800000)]
        (hd (findAvailableSlots officeHours [taskEvent t1 start1 (start1 + 1800000)]
               50400000 1260000000 30))
        (tl (findAvailableSlots officeHours [taskEvent t1 start1 (start1 + 1800000)]
               50400000 1260000000 30)) t2 = halfHourSlot start2"
    and c2: "calculateSchedulingConfidence (halfHourSlot start2) t2 = conf2"
  shows "scheduledTasks (fst (scheduleAllTasks frozenClock officeHours [] [t1, t2])) =
     [\<lparr>placed_taskId = ''a'', placed_start = start1, placed_end = start1 + 1800000,
        confidence = conf1\<rparr>,
      \<lparr>placed_taskId = ''b'', placed_start = start2, placed_end = start2 + 1800000,
        confidence = conf2\<rparr>]"
proof -
  have f: "isFlexible t1" "isFlexible t2" by (simp_all add: t1 t2 halfHourTask_def)
  have d: "estimatedDuration t1 = 30" "estimatedDuration t2 = 30"
    by (simp_all add: t1 t2 halfHourTask_def)
  have ids: "task_id t1 = ''a''" "task_id t2 = ''b''" by (simp_all add: t1 t2 halfHourTask_def)
  have dep: "fst (checkDependencies evs t1)" "fst (checkDependencies evs t2)" for evs
    by (simp_all add: t1 t2 halfHourTask_def checkDependencies_def)
  have w: "calculateSchedulingWindow frozenClock n t1 = ((50400000, 1260000000), Suc n)"
    "calculateSchedulingWindow frozenClock n t2 = ((50400000, 1260000000), Suc n)" for n
    by (simp_all add: t1 t2 halfHourTask_def calculateSchedulingWindow_def frozenClock_def
        addDays_def msPerDay_def)
  have n1: "findAvailableSlots officeHours [] 50400000 1260000000 30 \<noteq> []" by code_simp
  have a: "scheduleTask frozenClock 0 officeHours [] t1
      = (Scheduled start1 (start1 + 1800000) conf1, 1)"
    using scheduleTask_placed[OF dep(1) w(1), where st = officeHours and best = "halfHourSlot start1"]
      n1 s1 c1 by (simp add: d halfHourSlot_def)
  have b: "scheduleTask frozenClock 1 officeHours ([] @ [taskEvent t1 start1 (start1 + 1800000)]) t2
      = (Scheduled start2 (start2 + 1800000) conf2, 2)"
    using scheduleTask_placed[OF dep(2) w(2),
        where st = officeHours and best = "halfHourSlot start2"]
      n2 s2 c2 by (simp add: d halfHourSlot_def)
  from two_placed_run[OF rank f a b] show ?thesis by (simp add: ids)
qed

lemma high_low_run:
  "scheduledTasks (fst (scheduleAllTasks frozenClock officeHours [] [taskHigh, taskLow])) =
     [\<lparr>placed_taskId = ''a'', placed_start = 118800000, placed_end = 120600000,
        confidence = 9 / 10\<rparr>,
      \<lparr>placed_taskId = ''b'', placed_start = 50400000, placed_end = 52200000,
        confidence = 7 / 10\<rparr>]"
proof -
  have 1: "prioritizeTasks frozenClock 0 [taskHigh, taskLow] = ([taskHigh, taskLow], 0)"
    by code_simp
  have 2: "selectBestTimeSlot []
        (hd (findAvailableSlots officeHours [] 50400000 1260000000 30))
        (tl (findAvailableSlots officeHours [] 50400000 1260000000 30)) taskHigh
      = halfHourSlot 118800000" by code_simp
  have 3: "calculateSchedulingConfidence (halfHourSlot 118800000) taskHigh = 9 / 10"
    by code_simp
  have 4: "findAvailableSlots officeHours [taskEvent taskHigh 118800000 (118800000 + 1800000)]
        50400000 1260000000 30 \<noteq> []" by code_simp
  have 5: "selectBestTimeSlot [taskEvent taskHigh 118800000 (118800000 + 1800000)]
        (hd (findAvailableSlots officeHours [taskEvent taskHigh 118800000 (118800000 + 1800000)]
               50400000 1260000000 30))
        (tl (findAvailableSlots officeHours [taskEvent taskHigh 118800000 (118800000 + 1800000)]
               50400000 1260000000 30)) taskLow = halfHourSlot 50400000" by code_simp
  have 6: "calculateSchedulingConfidence (halfHourSlot 50400000) taskLow = 7 / 10"
    by code_simp
  from two_week_run[OF taskHigh_def taskLow_def 1 2 3 4 5 6] show ?thesis by simp
qed

lemma no_days_run:
  "scheduleAllTasks frozenClock noWorkingDays [] [taskFirst] =
     (\<lparr>success = False, scheduledTasks = [], unscheduledTasks = [''a''],
        conflicts = [\<lparr>conflict_taskId = ''a'', reason = ''No available time slots found'',
          suggestedTime = Some 118800000\<rparr>],
        suggestions = fst (generateSuggestions frozenClock 2
          \<lparr>success = True, scheduledTasks = [], unscheduledTasks = [''a''],
            conflicts = [\<lparr>conflict_taskId = ''a'', reason = ''No available time slots found'',
              suggestedTime = Some 118800000\<rparr>],
            suggestions = []\<rparr> [taskFirst])\<rparr>,
      [], [taskFirst])"
proof -
  have rank: "prioritizeTasks frozenClock 0 [taskFirst] = ([taskFirst], 0)" by code_simp
  have f: "isFlexible taskFirst" by code_simp
  have 1: "fst (checkDependencies [] taskFirst)" by code_simp
  have 2: "calculateSchedulingWindow frozenClock 0 taskFirst = ((50400000, 1260000000), 1)"
    by code_simp
  have 3: "findAvailableSlots noWorkingDays [] 50400000 1260000000 (estimatedDuration taskFirst) = []"
    by code_simp
  have 4: "suggestAlternativeTime frozenClock 1 = (118800000, 2)" by code_simp
  have a: "scheduleTask frozenClock 0 noWorkingDays [] taskFirst =
      (NotScheduled (Some ''No available time slots found'') (Some 118800000), 2)"
    using scheduleTask_no_slot[OF 1 2 3] 4 by simp
  have i: "task_id taskFirst = ''a''" by code_simp
  from one_failed_run[OF rank f a] show ?thesis by (simp add: i)
qed

lemma ticking_two_medium_run:
  "scheduleAllTasks tickingClock officeHours [] [taskFirst, taskSecond] =
     (\<lparr>success = True,
        scheduledTasks =
          [\<lparr>placed_taskId = ''a'', placed_start = 50400000, placed_end = 52200000,
             confidence = 7 / 10\<rparr>,
           \<lparr>placed_taskId = ''b'', placed_start = 52200001, placed_end = 54000001,
             confidence = 7 / 10\<rparr>],
        unscheduledTasks = [], conflicts = [], suggestions = []\<rparr>,
      [taskEvent taskFirst 50400000 52200000, taskEvent taskSecond 52200001 54000001],
      [taskFirst, taskSecond])"
proof -
  have rank: "prioritizeTasks tickingClock 0 [taskFirst, taskSecond] = ([taskFirst, taskSecond], 0)"
    by code_simp
  have fa: "isFlexible taskFirst" and fb: "isFlexible taskSecond" by code_simp+
  have a: "scheduleTask tickingClock 0 officeHours [] taskFirst
      = (Scheduled 50400000 52200000 (7 / 10), 1)"
  proof -
    have 1: "fst (checkDependencies [] taskFirst)" by code_simp
    have 2: "calculateSchedulingWindow tickingClock 0 taskFirst = ((50400000, 1260000000), 1)"
      by code_simp
    have 3: "findAvailableSlots officeHours [] 50400000 1260000000 (estimatedDuration taskFirst) \<noteq> []"
      by code_simp
    have 4: "selectBestTimeSlot []
        (hd (findAvailableSlots officeHours [] 50400000 1260000000 (estimatedDuration taskFirst)))
        (tl (findAvailableSlots officeHours [] 50400000 1260000000 (estimatedDuration taskFirst)))
        taskFirst = halfHourSlot 50400000" by code_simp
    have 5: "calculateSchedulingConfidence (halfHourSlot 50400000) taskFirst = 7 / 10" by code_simp
    from scheduleTask_placed[OF 1 2 3 4] 5 show ?thesis by (simp add: halfHourSlot_def)
  qed
  have b: "scheduleTask tickingClock 1 officeHours ([] @ [taskEvent taskFirst 50400000 52200000])
      taskSecond = (Scheduled 52200001 54000001 (7 / 10), 2)"
  proof -
    let ?evs = "[] @ [taskEvent taskFirst 50400000 52200000]"
    have 1: "fst (checkDependencies ?evs taskSecond)" by code_simp
    have 2: "calculateSchedulingWindow tickingClock 1 taskSecond = ((50400001, 1260000001), 2)"
      by code_simp
    have 3: "findAvailableSlots officeHours ?evs 50400001 1260000001 (estimatedDuration taskSecond) \<noteq> []"
      by code_simp
    have 4: "selectBestTimeSlot ?evs
        (hd (findAvailableSlots officeHours ?evs 50400001 1260000001 (estimatedDuration taskSecond)))
        (tl (findAvailableSlots officeHours ?evs 50400001 1260000001 (estimatedDuration taskSecond)))
        taskSecond = halfHourSlot 52200001" by code_simp
    have 5: "calculateSchedulingConfidence (halfHourSlot 52200001) taskSecond = 7 / 10" by code_simp
    from scheduleTask_placed[OF 1 2 3 4] 5 show ?thesis by (simp add: halfHourSlot_def)
  qed
  have ids: "task_id taskFirst = ''a''" "task_id taskSecond = ''b''" by code_simp+
  have sug: "fst (generateSuggestions tickingClock 2
      \<lparr>success = True,
        scheduledTasks =
          [\<lparr>placed_taskId = ''a'', placed_start = 50400000, placed_end = 52200000,
             confidence = 7 / 10\<rparr>,
           \<lparr>placed_taskId = ''b'', placed_start = 52200001, placed_end = 54000001,
             confidence = 7 / 10\<rparr>],
        unscheduledTasks = [], conflicts = [], suggestions = []\<rparr> [taskFirst, taskSecond]) = []"
    by code_simp
  from two_placed_run[OF rank fa fb a b] show ?thesis by (simp add: ids sug)
qed

section \<open>The claims\<close>

subsection \<open>C1: committed placements do not overlap\<close>

text \<open>
  C1. In every run of \<^verbatim>\<open>scheduleAllTasks\<close> with a non-negative buffer, the events
  array afterwards is the array before followed by one event per placement, in the
  order of commitment; each of these events is free of overlap, as half-open
  intervals, with every event in the array at the moment it was appended (the
  pre-existing events and the placements committed before it); the placements of the
  pass are pairwise free of overlap; and each placement ends exactly the estimated
  duration of its task after its start.
\<close>

theorem placements_never_overlap:
  assumes "0 \<le> bufferTime st"
    and "scheduleAllTasks clk st evs tasks = (r, evs', tasks')"
  shows "take (length evs) evs' = evs \<and>
         map intervalOfEvent (drop (length evs) evs') = map intervalOfPlacement (scheduledTasks r) \<and>
         commitsFree evs (drop (length evs) evs') \<and>
         pairwiseFree (scheduledTasks r) \<and>
         list_all (exactDuration tasks) (scheduledTasks r)"
proof -
  from assms(2) have r: "scheduledTasks r = scheduledTasks (snd (snd (passLoop clk st evs tasks)))"
    and e: "evs' = fst (passLoop clk st evs tasks)"
    using scheduleAllTasks_parts(1,5)[of clk st evs tasks] by simp_all
  obtain n r0 where loop: "passLoop clk st evs tasks = (evs', n, r0)"
    using e by (cases "passLoop clk st evs tasks") auto
  from passInv_loop[OF assms(1), of evs tasks clk] loop r
  have inv: "take (length evs) evs' = evs"
    "commitsFree evs (drop (length evs) evs')"
    "map intervalOfEvent (drop (length evs) evs') = map intervalOfPlacement (scheduledTasks r)"
    "list_all (exactDuration tasks) (scheduledTasks r)"
    by (simp_all add: passInv_def)
  from commitsFree_pairwise[OF inv(2,3)] inv show ?thesis by simp
qed

text \<open>
  The theorem at work: an afternoon with one meeting and two tasks, both placed.
\<close>

theorem placements_never_overlap_witness:
  "0 \<le> bufferTime officeHours \<and>
   map placed_start (scheduledTasks
      (fst (scheduleAllTasks frozenClock officeHours [afternoonMeeting] [taskB, taskA])))
     = [54900000, 57600000] \<and>
   commitsFree [afternoonMeeting]
     (drop (length [afternoonMeeting])
        (fst (snd (scheduleAllTasks frozenClock officeHours [afternoonMeeting] [taskB, taskA])))) \<and>
   pairwiseFree (scheduledTasks
      (fst (scheduleAllTasks frozenClock officeHours [afternoonMeeting] [taskB, taskA])))"
proof -
  let ?run = "scheduleAllTasks frozenClock officeHours [afternoonMeeting] [taskB, taskA]"
  have b: "0 \<le> bufferTime officeHours" by (simp add: officeHours_def)
  have run: "?run = (fst ?run, fst (snd ?run), snd (snd ?run))" by simp
  have placed: "map placed_start (scheduledTasks (fst ?run)) = [54900000, 57600000]"
    by (simp add: frozen_run)
  from placements_never_overlap[OF b run] b placed show ?thesis by simp
qed

subsection \<open>C2: the conflict test\<close>

text \<open>
  C2 says that intervals which merely touch do not conflict. They do: a candidate
  from 09:00 to 10:00 conflicts with a meeting from 10:00 to 11:00, although the two
  do not overlap as half-open intervals.
\<close>

theorem touching_intervals_conflict_counterexample:
  "findConflicts [meeting 36000000 39600000] 32400000 36000000 = [meeting 36000000 39600000] \<and>
   \<not> overlaps 32400000 36000000 (event_start (meeting 36000000 39600000))
       (event_end (meeting 36000000 39600000))"
  by (simp add: findConflicts_def isWithinInterval_def meeting_def overlaps_def)

text \<open>
  C2, amended. The conflict test is the overlap of closed intervals: with the ends
  of each interval in order, a candidate \<open>[s, e]\<close> conflicts with an event exactly
  when \<open>s\<close> is not after the event's end and the event's start is not after \<open>e\<close>;
  the test is applied to every event of the conflict set.
\<close>

theorem conflict_test_closed_intervals:
  assumes "s \<le> e" and "event_start ev \<le> event_end ev"
  shows "(ev \<in> set (findConflicts evs s e)) =
         (ev \<in> set evs \<and> s \<le> event_end ev \<and> event_start ev \<le> e)"
  using assms by (auto simp: findConflicts_def isWithinInterval_def Let_def min_def max_def)

text \<open>
  The theorem at the touching intervals above.
\<close>

theorem conflict_test_closed_intervals_witness:
  "(32400000 :: int) \<le> 36000000 \<and>
   event_start (meeting 36000000 39600000) \<le> event_end (meeting 36000000 39600000) \<and>
   meeting 36000000 39600000 \<in> set (findConflicts [meeting 36000000 39600000] 32400000 36000000)"
proof -
  have 1: "(32400000 :: int) \<le> 36000000" by simp
  have 2: "event_start (meeting 36000000 39600000) \<le> event_end (meeting 36000000 39600000)"
    by (simp add: meeting_def)
  from conflict_test_closed_intervals[OF 1 2, of "[meeting 36000000 39600000]"] 1 2
  show ?thesis by (simp add: meeting_def)
qed

subsection \<open>C3: the clock\<close>

text \<open>
  C3 says that "now" is captured once and reused. The source reads the clock anew at
  each use: in the comparator of the ranking, for the window of each task, for the
  fallback suggestion and for the overdue test. With a clock that advances by one
  millisecond per reading, the placements differ from those of a run in which every
  reading returns the first instant. (The ranking of two tasks takes one comparison,
  two readings.)
\<close>

theorem now_resampled_counterexample:
  "tickingClock 0 = frozenClock 0 \<and>
   map placed_start (scheduledTasks
      (fst (scheduleAllTasks tickingClock officeHours [afternoonMeeting] [taskB, taskA])))
     = [54000002, 55800003] \<and>
   map placed_start (scheduledTasks
      (fst (scheduleAllTasks frozenClock officeHours [afternoonMeeting] [taskB, taskA])))
     = [54900000, 57600000]"
proof -
  have "tickingClock 0 = frozenClock 0" by (simp add: tickingClock_def frozenClock_def)
  then show ?thesis by (simp add: ticking_run frozen_run)
qed

text \<open>
  C3, amended. The clock is read anew at each use. When it returns the same instant
  at every reading of a call, the call returns what the pass of the specification
  returns with that instant captured once as "now": the same result (placements,
  their order, failures, suggestions), the same events and the same ranked tasks.
  Two calls with identical tasks, settings and existing events under clocks that
  stand still at the same instant therefore return the same. The ranking enters
  through \<^verbatim>\<open>sortTasks_frozen\<close>: under such a clock it is the stable sort by
  descending score, whatever comparisons the engine makes.
\<close>

theorem fixed_now_is_now_captured_once:
  assumes "\<forall>k. clk k = now" and "\<forall>k. clk' k = now"
  shows "scheduleAllTasks clk st evs tasks = scheduleAllAt now st evs tasks \<and>
         scheduleAllTasks clk' st evs tasks = scheduleAllTasks clk st evs tasks"
proof -
  have eq: "scheduleAllTasks c st evs tasks = scheduleAllAt now st evs tasks"
    if c: "\<forall>k. c k = now" for c
  proof -
    let ?loop = "foldl (commitStep c st) (evs, snd (prioritizeTasks c 0 tasks), emptyResult)
        (filter isFlexible (rankAt now tasks))"
    have l: "(fst ?loop, snd (snd ?loop))
        = foldl (stepAt now st) (evs, emptyResult) (filter isFlexible (rankAt now tasks))"
      by (rule passLoop_frozen[OF c])
    then have l1: "fst (foldl (stepAt now st) (evs, emptyResult) (filter isFlexible (rankAt now tasks)))
        = fst ?loop"
      and l2: "snd (foldl (stepAt now st) (evs, emptyResult) (filter isFlexible (rankAt now tasks)))
        = snd (snd ?loop)"
      by (metis fst_conv, metis snd_conv)
    have p: "prioritizeTasks c 0 tasks = (rankAt now tasks, snd (prioritizeTasks c 0 tasks))"
      using prioritizeTasks_frozen[OF c, of 0 tasks] by (metis prod.collapse)
    show ?thesis
      unfolding scheduleAllTasks_def scheduleAllAt_def
      apply (subst p)
      apply (simp add: case_prod_beta Let_def flexibleTasks_def l1 l2
          generateSuggestions_frozen[OF c])
      done
  qed
  from eq[OF assms(1)] eq[OF assms(2)] show ?thesis by simp
qed

text \<open>
  C3, amended, witness: the clock that stands still at Thursday 14:00, with a meeting
  in the afternoon and two tasks due at 17:00.
\<close>

theorem fixed_now_is_now_captured_once_witness:
  "(\<forall>k. frozenClock k = 50400000) \<and>
   scheduleAllAt 50400000 officeHours [afternoonMeeting] [taskB, taskA] =
     (\<lparr>success = True,
        scheduledTasks =
          [\<lparr>placed_taskId = ''a'', placed_start = 54900000, placed_end = 56700000,
             confidence = 7 / 10\<rparr>,
           \<lparr>placed_taskId = ''b'', placed_start = 57600000, placed_end = 59400000,
             confidence = 7 / 10\<rparr>],
        unscheduledTasks = [], conflicts = [], suggestions = []\<rparr>,
      [afternoonMeeting, taskEvent taskA 54900000 56700000,
       taskEvent taskB 57600000 59400000],
      [taskA, taskB])"
proof -
  have h: "\<forall>k. frozenClock k = 50400000" by (simp add: frozenClock_def)
  from fixed_now_is_now_captured_once[OF h h, of officeHours "[afternoonMeeting]" "[taskB, taskA]"]
  have "scheduleAllAt 50400000 officeHours [afternoonMeeting] [taskB, taskA]
      = scheduleAllTasks frozenClock officeHours [afternoonMeeting] [taskB, taskA]" by simp
  with h show ?thesis by (simp only: frozen_run simp_thms)
qed

subsection \<open>C4: the caller's arrays\<close>

text \<open>
  C4 says that the caller's arrays are left as they were. They are not: after the
  call, the events array the scheduler was constructed with holds two more events, and
  the tasks array is in ranked order.
\<close>

theorem caller_arrays_mutated_counterexample:
  "eventArrays exampleStore 0 = [afternoonMeeting] \<and>
   eventArrays (snd (callScheduleAllTasks frozenClock (newAutoScheduler officeHours 0) 0
      exampleStore)) 0
     = [afternoonMeeting, taskEvent taskA 54900000 56700000, taskEvent taskB 57600000 59400000] \<and>
   taskArrays exampleStore 0 = [taskB, taskA] \<and>
   taskArrays (snd (callScheduleAllTasks frozenClock (newAutoScheduler officeHours 0) 0
      exampleStore)) 0 = [taskA, taskB]"
proof -
  have "eventArrays exampleStore 0 = [afternoonMeeting]"
    and "taskArrays exampleStore 0 = [taskB, taskA]"
    and "settings (newAutoScheduler officeHours 0) = officeHours"
    and "existingEvents (newAutoScheduler officeHours 0) = 0"
    by (simp_all add: exampleStore_def newAutoScheduler_def)
  then show ?thesis by (simp add: callScheduleAllTasks_def frozen_run)
qed

text \<open>
  C4, amended. \<^verbatim>\<open>scheduleAllTasks\<close> works on the caller's arrays in place. The
  events array the scheduler was constructed with keeps its events, in order, and
  gains one event per placement, in the order of commitment; the tasks array passed to
  the call is sorted in place, so that it holds the same tasks in ranked order. No
  other array of the store changes.
\<close>

theorem caller_arrays_updated_in_place:
  "(let old = eventArrays s (existingEvents this);
        given = taskArrays s tasksRef;
        (result, s') = callScheduleAllTasks clk this tasksRef s;
        new = eventArrays s' (existingEvents this)
    in eventArrays s' = (eventArrays s)(existingEvents this := new) \<and>
       take (length old) new = old \<and>
       map intervalOfEvent (drop (length old) new) = map intervalOfPlacement (scheduledTasks result) \<and>
       taskArrays s' = (taskArrays s)(tasksRef := fst (prioritizeTasks clk 0 given)) \<and>
       mset (fst (prioritizeTasks clk 0 given)) = mset given)"
proof -
  let ?old = "eventArrays s (existingEvents this)"
  let ?given = "taskArrays s tasksRef"
  obtain evs1 n r where loop: "passLoop clk (settings this) ?old ?given = (evs1, n, r)"
    by (cases "passLoop clk (settings this) ?old ?given")
  have "growInv ?old (passLoop clk (settings this) ?old ?given)"
    unfolding passLoop_def by (rule growInv_foldl)
  with loop have g: "take (length ?old) evs1 = ?old"
    "map intervalOfEvent (drop (length ?old) evs1) = map intervalOfPlacement (scheduledTasks r)"
    by (simp_all add: growInv_def)
  have parts: "fst (snd (scheduleAllTasks clk (settings this) ?old ?given)) = evs1"
    "scheduledTasks (fst (scheduleAllTasks clk (settings this) ?old ?given)) = scheduledTasks r"
    "snd (snd (scheduleAllTasks clk (settings this) ?old ?given)) = fst (prioritizeTasks clk 0 ?given)"
    by (simp_all add: scheduleAllTasks_parts loop)
  show ?thesis
    using g parts
    by (simp add: callScheduleAllTasks_def case_prod_beta Let_def prioritizeTasks_mset)
qed

subsection \<open>C5: the ranking\<close>



subsection \<open>C6: the deadline term of the slot score\<close>

text \<open>
  C6 says that, of two slots before the deadline, the one nearer to the deadline gets
  a deadline term at least as large. The source's comment says the same ("Prefer slots
  closer to (but before) deadline"), but the term is the number of days to the
  deadline, capped at 10: it grows with the distance. For a deadline on Friday at
  17:00, the slot on Friday at 15:00 gets 1/12 and the slot on Thursday at 15:00 gets
  13/12. (\<open>deadlinePoints_le_10\<close> and \<open>deadlinePoints_antimono\<close> above: the term is
  at most 10, and a later slot never gets more than an earlier one.)
\<close>

theorem deadline_points_nearer_slot_scores_lower:
  "deadlinePoints (halfHourSlot 140400000) (halfHourTask ''a'' Medium (Some 147600000)) = 1 / 12 \<and>
   deadlinePoints (halfHourSlot 54000000) (halfHourTask ''a'' Medium (Some 147600000)) = 13 / 12"
  by (simp add: deadlinePoints_def halfHourTask_def halfHourSlot_def)

subsection \<open>C7: no working days\<close>




subsection \<open>C8: unsatisfied dependencies\<close>

text \<open>
  C8 gives the reason as beginning "dependencies not satisfied". The reason the
  source builds begins with a capital letter: "Dependencies not satisfied: x".
\<close>

theorem dependency_reason_counterexample:
  "conflicts (fst (scheduleAllTasks frozenClock officeHours [] [taskNeedsX])) =
     [\<lparr>conflict_taskId = ''a'', reason = ''Dependencies not satisfied: x'',
       suggestedTime = None\<rparr>] \<and>
   take (length ''dependencies not satisfied'') ''Dependencies not satisfied: x''
     \<noteq> ''dependencies not satisfied''"
proof -
  have rank: "prioritizeTasks frozenClock 0 [taskNeedsX] = ([taskNeedsX], 0)" by code_simp
  have f: "isFlexible taskNeedsX" by code_simp
  have m: "missingDependencies [] taskNeedsX = [''x'']" by code_simp
  have a: "scheduleTask frozenClock 0 officeHours [] taskNeedsX =
      (NotScheduled (Some ''Dependencies not satisfied: x'') None, 0)"
    using scheduleTask_missing[of "[]" taskNeedsX frozenClock 0 officeHours] by (simp add: m)
  have i: "task_id taskNeedsX = ''a''" by code_simp
  from one_failed_run[OF rank f a] show ?thesis by (simp add: i)
qed

text \<open>
  C8, amended. A task with a dependency that is the \<^verbatim>\<open>taskId\<close> of no event in the
  conflict set at its turn (pre-existing events and placements committed earlier in
  the pass) fails at once: its reason is "Dependencies not satisfied: " followed by
  the missing identifiers joined by ", "; the clock is not read, so no window is
  computed and no slot is searched for; the events array and the placements stay as
  they were; and the task is added to the unscheduled tasks and to the conflicts.
\<close>

theorem unsatisfied_dependency_fails:
  assumes "depId \<in> set (dependencies t)"
    and "\<not> list_ex (\<lambda>e. taskId e = Some depId) evs"
  shows "scheduleTask clk n st evs t =
           (NotScheduled (Some (''Dependencies not satisfied: '' @
              join '', '' (missingDependencies evs t))) None, n) \<and>
         depId \<in> set (missingDependencies evs t) \<and>
         commitStep clk st (evs, n, r) t =
           (evs, n,
            r\<lparr>unscheduledTasks := unscheduledTasks r @ [task_id t],
              conflicts := conflicts r @
                [\<lparr>conflict_taskId = task_id t,
                  reason = ''Dependencies not satisfied: '' @
                    join '', '' (missingDependencies evs t),
                  suggestedTime = None\<rparr>]\<rparr>)"
proof -
  from assms have m: "depId \<in> set (missingDependencies evs t)"
    by (simp add: missingDependencies_def)
  then have ne: "missingDependencies evs t \<noteq> []" by auto
  note st = scheduleTask_missing[OF ne, of clk n st]
  from commitStep_NotScheduled[OF st, of r] st m show ?thesis
    by (simp add: failureReason_def)
qed

text \<open>
  The theorem at a task that depends on "x" when the only event is a meeting.
\<close>

theorem unsatisfied_dependency_fails_witness:
  "''x'' \<in> set (dependencies taskNeedsX) \<and>
   \<not> list_ex (\<lambda>e. taskId e = Some ''x'') [afternoonMeeting] \<and>
   scheduleTask frozenClock 0 officeHours [afternoonMeeting] taskNeedsX =
     (NotScheduled (Some ''Dependencies not satisfied: x'') None, 0)"
proof -
  have 1: "''x'' \<in> set (dependencies taskNeedsX)" by (simp add: taskNeedsX_def)
  have 2: "\<not> list_ex (\<lambda>e. taskId e = Some ''x'') [afternoonMeeting]"
    by (simp add: afternoonMeeting_def meeting_def)
  have m: "missingDependencies [afternoonMeeting] taskNeedsX = [''x'']" by code_simp
  from unsatisfied_dependency_fails[OF 1 2, of frozenClock 0 officeHours emptyResult] 1 2
  show ?thesis by (simp add: m)
qed

subsection \<open>C9: two half-hour tasks and a buffer of 15 minutes\<close>

text \<open>
  C9. With a buffer of 15 minutes, no events and two flexible 30-minute tasks without
  deadline, the second task's start is not always at least 45 minutes after the
  first's. The settings document \<^verbatim>\<open>bufferTime\<close> as "in minutes between tasks", but
  \<^verbatim>\<open>findSlotsInRange\<close> pads the end of the candidate only, never its start, so a
  candidate that begins right after a committed task ends is free. The candidates are
  spaced from the start of the window, which \<^verbatim>\<open>calculateSchedulingWindow\<close> takes from
  a new reading of the clock for each task. With a clock that advances by one
  millisecond per reading (the ranking of tasks without deadline reads none), the
  first task is placed at 14:00:00.000 to 14:30:00.000 and the second at 14:30:00.001
  to 15:00:00.001: 30 minutes and 1 millisecond after the first's start, 1 millisecond
  after its end.
\<close>

theorem second_item_starts_inside_buffer:
  "bufferTime officeHours = 15 \<and>
   map (\<lambda>p. (placed_taskId p, placed_start p, placed_end p))
     (scheduledTasks (fst (scheduleAllTasks tickingClock officeHours [] [taskFirst, taskSecond])))
     = [(''a'', 50400000, 52200000), (''b'', 52200001, 54000001)] \<and>
   52200001 - 50400000 <
     (estimatedDuration taskFirst + bufferTime officeHours) * msPerMinute \<and>
   52200001 - 52200000 < bufferTime officeHours * msPerMinute"
proof -
  have "bufferTime officeHours = 15" "estimatedDuration taskFirst = 30" "msPerMinute = 60000"
    by (simp_all add: officeHours_def taskFirst_def halfHourTask_def msPerMinute_def)
  then show ?thesis by (simp add: ticking_two_medium_run)
qed

text \<open>
  Apart from the clock, a first task of high priority goes to the next morning at
  09:00 (the slot score prefers the morning for it) and the second task to the same
  afternoon, before the first (\<^verbatim>\<open>high_low_run\<close>): slots are scored, not taken in
  order of time.
\<close>


subsection \<open>C10: the success field\<close>

text \<open>
  C10. For every call, \<^verbatim>\<open>success\<close> is true if and only if \<^verbatim>\<open>unscheduledTasks\<close> is
  empty, and that is so if and only if every flexible task of the tasks given
  received a placement: the identifiers placed together with the identifiers
  reported unscheduled are, counted with repetition, the identifiers of the flexible
  tasks given, so the list of failures is empty exactly when the placements carry
  the identifiers of all the flexible tasks given.
\<close>

theorem success_iff_every_flexible_task_placed:
  "success (fst (scheduleAllTasks clk st evs tasks)) =
     (unscheduledTasks (fst (scheduleAllTasks clk st evs tasks)) = []) \<and>
   mset (map placed_taskId (scheduledTasks (fst (scheduleAllTasks clk st evs tasks))))
     + mset (unscheduledTasks (fst (scheduleAllTasks clk st evs tasks)))
     = mset (map task_id (filter isFlexible tasks)) \<and>
   (unscheduledTasks (fst (scheduleAllTasks clk st evs tasks)) = []) =
     (mset (map placed_taskId (scheduledTasks (fst (scheduleAllTasks clk st evs tasks))))
        = mset (map task_id (filter isFlexible tasks)))"
proof -
  let ?ts = "flexibleTasks (fst (prioritizeTasks clk 0 tasks))"
  obtain evs' n r where loop: "passLoop clk st evs tasks = (evs', n, r)"
    by (cases "passLoop clk st evs tasks")
  have "partitionInv ?ts (passLoop clk st evs tasks)"
    unfolding passLoop_def by (rule partitionInv_foldl)
  with loop have "mset (map placed_taskId (scheduledTasks r)) + mset (unscheduledTasks r)
      = mset (map task_id ?ts)" by (simp add: partitionInv_def)
  also have "\<dots> = mset (map task_id (filter isFlexible tasks))"
    using flexibleTasks_mset[of clk 0 tasks] by (metis mset_map)
  finally have part: "mset (map placed_taskId (scheduledTasks r)) + mset (unscheduledTasks r)
      = mset (map task_id (filter isFlexible tasks))" .
  have "(unscheduledTasks r = []) =
      (mset (map placed_taskId (scheduledTasks r)) = mset (map task_id (filter isFlexible tasks)))"
  proof
    assume "unscheduledTasks r = []"
    with part show "mset (map placed_taskId (scheduledTasks r))
        = mset (map task_id (filter isFlexible tasks))" by simp
  next
    assume "mset (map placed_taskId (scheduledTasks r))
        = mset (map task_id (filter isFlexible tasks))"
    with part have "mset (unscheduledTasks r) = {#}" by simp
    then show "unscheduledTasks r = []" by simp
  qed
  with part show ?thesis by (simp add: scheduleAllTasks_parts loop)
qed

text \<open>
  C10, witness: a run in which both tasks are placed, and a run without working days
  in which the one task is not.
\<close>

theorem success_iff_every_flexible_task_placed_witness:
  "success (fst (scheduleAllTasks frozenClock officeHours [afternoonMeeting] [taskB, taskA])) \<and>
   mset (map placed_taskId (scheduledTasks
       (fst (scheduleAllTasks frozenClock officeHours [afternoonMeeting] [taskB, taskA]))))
     = mset (map task_id (filter isFlexible [taskB, taskA])) \<and>
   success (fst (scheduleAllTasks frozenClock noWorkingDays [] [taskFirst])) = False \<and>
   mset (unscheduledTasks (fst (scheduleAllTasks frozenClock noWorkingDays [] [taskFirst])))
     = mset (map task_id (filter isFlexible [taskFirst]))"
proof -
  have s: "success (fst (scheduleAllTasks frozenClock officeHours [afternoonMeeting] [taskB, taskA]))"
    "unscheduledTasks (fst (scheduleAllTasks frozenClock officeHours [afternoonMeeting] [taskB, taskA])) = []"
    by (simp_all add: frozen_run)
  have u: "success (fst (scheduleAllTasks frozenClock noWorkingDays [] [taskFirst])) = False"
    "scheduledTasks (fst (scheduleAllTasks frozenClock noWorkingDays [] [taskFirst])) = []"
    by (simp_all add: no_days_run)
  from success_iff_every_flexible_task_placed
    [of frozenClock officeHours "[afternoonMeeting]" "[taskB, taskA]"] s
  have 1: "mset (map placed_taskId (scheduledTasks
       (fst (scheduleAllTasks frozenClock officeHours [afternoonMeeting] [taskB, taskA]))))
     = mset (map task_id (filter isFlexible [taskB, taskA]))" by simp
  from success_iff_every_flexible_task_placed [of frozenClock noWorkingDays "[]" "[taskFirst]"] u
  have 2: "mset (unscheduledTasks (fst (scheduleAllTasks frozenClock noWorkingDays [] [taskFirst])))
     = mset (map task_id (filter isFlexible [taskFirst]))" by simp
  from s(1) 1 u(1) 2 show ?thesis by (simp only: simp_thms)
qed

end
